theory Spec2Isabelle
  imports Main "HOL-Library.Multiset"
begin

section \<open>Entity model\<close>

text \<open>
  The entities of \<^verbatim>\<open>src/lib/types.ts\<close>, with the scheduling fields that
  \<^verbatim>\<open>src/hooks/use-task-store.ts\<close> initialises on every item. A JavaScript
  \<^verbatim>\<open>Date\<close> is modelled by its instant, the integer number of milliseconds
  since the epoch (only valid dates are modelled). An optional field is an
  \<open>option\<close>. Four names of the source are words of the proof language and
  carry a prime here: the field \<^verbatim>\<open>id\<close> is \<open>id'\<close>, the field \<^verbatim>\<open>notes\<close> is
  \<open>notes'\<close>, the status \<^verbatim>\<open>done\<close> is \<open>done'\<close> and the attachment type
  \<^verbatim>\<open>file\<close> is \<open>file'\<close>. The fields of an attachment are prefixed.
\<close>

type_synonym Date = int

datatype Priority = high | medium | low

datatype Status = todo | started | inprogress | done'

record DescriptionHistoryEntry =
  timestamp :: Date
  content :: string

datatype AttachmentType = link | file'

record Attachment =
  attachmentId :: string
  attachmentType :: AttachmentType
  attachmentName :: string
  url :: "string option"
  dataUri :: "string option"
  fileType :: "string option"
  attachmentTimestamp :: Date

text \<open>
  A schedule and a reminder are objects with the keys of their type. The
  engine compares them through \<^verbatim>\<open>JSON.stringify\<close>, which prints the keys in
  the order in which the object received them, so that order is part of the
  value: \<open>scheduleKeys\<close> and \<open>reminderKeys\<close>.
\<close>

record Schedule =
  scheduleKeys :: "string list"
  recurrenceRule :: string
  specificTimes :: "string list"
  timeZone :: string

record Reminder =
  reminderKeys :: "string list"
  remindAt :: string
  message :: string

text \<open>
  The view model \<^verbatim>\<open>TodayItem\<close> of the Today selector; \<open>'item\<close> is the type of
  \<^verbatim>\<open>originalItem\<close>, the union of Task, Subtask and Activity declared below.
  A field that an item has too is referred to by its qualified name, such as
  \<open>TodayItem.status\<close>; the field \<^verbatim>\<open>type\<close> is \<open>itemType\<close>.
\<close>

datatype ItemType = TaskType | SubtaskType | ActivityType

record 'item TodayItem =
  id' :: string
  parentId :: "string option"
  grandparentId :: "string option"
  itemType :: ItemType
  name :: string
  priority :: Priority
  status :: Status
  creationDate :: Date
  expectedCompletionDate :: Date
  isOverdue :: bool
  daysUntilDue :: int
  urgencyScore :: int
  listName :: "string option"
  taskName :: "string option"
  subtaskName :: "string option"
  originalItem :: 'item

record Entity =
  id' :: string
  name :: string

record Item = Entity +
  description :: "string option"
  creationDate :: Date
  expectedCompletionDate :: Date
  actualCompletionDate :: "Date option"
  lastEditedDate :: Date
  status :: Status
  priority :: Priority
  order :: nat
  descriptionHistory :: "DescriptionHistoryEntry list"
  attachments :: "Attachment list"
  autoRepeat :: bool
  schedule :: Schedule
  reminder :: Reminder

record Activity = Item +
  parentId :: string
  lastInstanceDate :: "Date option"
  notes' :: string
  numericValue :: "int option"
  isSkipped :: bool
  isDue :: bool
  dueCount :: nat

record Container = Item +
  serialCompletionMandatory :: bool
  sequenceMandatory :: bool
  dependencies :: "string list"

record Subtask = Container +
  parentId :: string
  activities :: "Activity list"

record Task = Container +
  listId :: string
  subtasks :: "Subtask list"

record TaskList = Entity +
  tasks :: "Task list"

record TaskStore =
  taskLists :: "TaskList list"
  isLoading :: bool
  error :: "string option"

section \<open>Hierarchy locator (src/lib/store-utils.ts)\<close>

text \<open>
  \<^verbatim>\<open>findItemInDraft\<close> returns references into the draft: the item and its
  parent. A reference is modelled by the position of the object in the tree
  (the indices of the list, the task, the subtask and the activity); the
  parent of a position is the position without its last index. The loops
  return at the first match in depth-first order.
\<close>

datatype Found =
    FoundTaskList nat
  | FoundTask nat nat
  | FoundSubtask nat nat nat
  | FoundActivity nat nat nat nat

fun findInDraftActivities :: "string \<Rightarrow> nat \<Rightarrow> nat \<Rightarrow> nat \<Rightarrow> nat \<Rightarrow> Activity list \<Rightarrow> Found option" where
  "findInDraftActivities i li ti si ai [] = None"
| "findInDraftActivities i li ti si ai (activity # rest) =
     (if id' activity = i then Some (FoundActivity li ti si ai)
      else findInDraftActivities i li ti si (Suc ai) rest)"

fun findInDraftSubtasks :: "string \<Rightarrow> nat \<Rightarrow> nat \<Rightarrow> nat \<Rightarrow> Subtask list \<Rightarrow> Found option" where
  "findInDraftSubtasks i li ti si [] = None"
| "findInDraftSubtasks i li ti si (subtask # rest) =
     (if id' subtask = i then Some (FoundSubtask li ti si)
      else (case findInDraftActivities i li ti si 0 (activities subtask) of
              Some r \<Rightarrow> Some r
            | None \<Rightarrow> findInDraftSubtasks i li ti (Suc si) rest))"

fun findInDraftTasks :: "string \<Rightarrow> nat \<Rightarrow> nat \<Rightarrow> Task list \<Rightarrow> Found option" where
  "findInDraftTasks i li ti [] = None"
| "findInDraftTasks i li ti (task # rest) =
     (if id' task = i then Some (FoundTask li ti)
      else (case findInDraftSubtasks i li ti 0 (subtasks task) of
              Some r \<Rightarrow> Some r
            | None \<Rightarrow> findInDraftTasks i li (Suc ti) rest))"

fun findInDraftLists :: "string \<Rightarrow> nat \<Rightarrow> TaskList list \<Rightarrow> Found option" where
  "findInDraftLists i li [] = None"
| "findInDraftLists i li (list # rest) =
     (if id' list = i then Some (FoundTaskList li)
      else (case findInDraftTasks i li 0 (tasks list) of
              Some r \<Rightarrow> Some r
            | None \<Rightarrow> findInDraftLists i (Suc li) rest))"

definition findItemInDraft :: "TaskStore \<Rightarrow> string \<Rightarrow> Found option" where
  "findItemInDraft draft i = findInDraftLists i 0 (taskLists draft)"

text \<open>Reading and writing the object at a position.\<close>

definition listAt :: "TaskStore \<Rightarrow> nat \<Rightarrow> TaskList" where
  "listAt s li = taskLists s ! li"

definition taskAt :: "TaskStore \<Rightarrow> nat \<Rightarrow> nat \<Rightarrow> Task" where
  "taskAt s li ti = tasks (listAt s li) ! ti"

definition subtaskAt :: "TaskStore \<Rightarrow> nat \<Rightarrow> nat \<Rightarrow> nat \<Rightarrow> Subtask" where
  "subtaskAt s li ti si = subtasks (taskAt s li ti) ! si"

definition activityAt :: "TaskStore \<Rightarrow> nat \<Rightarrow> nat \<Rightarrow> nat \<Rightarrow> nat \<Rightarrow> Activity" where
  "activityAt s li ti si ai = activities (subtaskAt s li ti si) ! ai"

definition modifyList :: "nat \<Rightarrow> (TaskList \<Rightarrow> TaskList) \<Rightarrow> TaskStore \<Rightarrow> TaskStore" where
  "modifyList li f s = s\<lparr>taskLists := (taskLists s)[li := f (taskLists s ! li)]\<rparr>"

definition modifyTask :: "nat \<Rightarrow> nat \<Rightarrow> (Task \<Rightarrow> Task) \<Rightarrow> TaskStore \<Rightarrow> TaskStore" where
  "modifyTask li ti f = modifyList li (\<lambda>l. l\<lparr>tasks := (tasks l)[ti := f (tasks l ! ti)]\<rparr>)"

definition modifySubtask :: "nat \<Rightarrow> nat \<Rightarrow> nat \<Rightarrow> (Subtask \<Rightarrow> Subtask) \<Rightarrow> TaskStore \<Rightarrow> TaskStore" where
  "modifySubtask li ti si f =
     modifyTask li ti (\<lambda>t. t\<lparr>subtasks := (subtasks t)[si := f (subtasks t ! si)]\<rparr>)"

definition modifyActivity :: "nat \<Rightarrow> nat \<Rightarrow> nat \<Rightarrow> nat \<Rightarrow> (Activity \<Rightarrow> Activity) \<Rightarrow> TaskStore \<Rightarrow> TaskStore" where
  "modifyActivity li ti si ai f =
     modifySubtask li ti si (\<lambda>st. st\<lparr>activities := (activities st)[ai := f (activities st ! ai)]\<rparr>)"

section \<open>Mutation engine: helpers\<close>

text \<open>
  \<^verbatim>\<open>String.prototype.trim\<close>. A string is a list of 8-bit characters, the
  code points up to U+00FF; the white space and line terminators of
  ECMAScript among them are TAB, LF, VT, FF, CR, SP and NBSP (U+00A0).
\<close>

definition isWhiteSpace :: "char \<Rightarrow> bool" where
  "isWhiteSpace c =
     (c \<in> set [CHR 0x09, CHR 0x0A, CHR 0x0B, CHR 0x0C, CHR 0x0D, CHR 0x20, CHR 0xA0])"

definition trim :: "string \<Rightarrow> string" where
  "trim str = rev (dropWhile isWhiteSpace (rev (dropWhile isWhiteSpace str)))"

text \<open>\<^verbatim>\<open>addHistoryEntry\<close> of store-utils.ts: an entry whose trimmed content is empty is dropped.\<close>

definition addHistoryEntry :: "'a Item_scheme \<Rightarrow> Date \<Rightarrow> string \<Rightarrow> 'a Item_scheme" where
  "addHistoryEntry item ts cont =
     (let trimmedContent = trim cont
      in if trimmedContent \<noteq> []
         then item\<lparr>descriptionHistory :=
                descriptionHistory item @ [\<lparr>timestamp = ts, content = trimmedContent\<rparr>]\<rparr>
         else item)"

text \<open>\<^verbatim>\<open>x || ''\<close> and \<^verbatim>\<open>x || undefined\<close> on an optional string.\<close>

definition orEmpty :: "string option \<Rightarrow> string" where
  "orEmpty x = (case x of None \<Rightarrow> [] | Some str \<Rightarrow> str)"

definition orUndefined :: "string option \<Rightarrow> string option" where
  "orUndefined x = (if orEmpty x = [] then None else x)"

text \<open>The decimal numeral that a template literal prints for a count.\<close>

fun showNat :: "nat \<Rightarrow> string" where
  "showNat n =
     (if n < 10 then [char_of (48 + n)]
      else showNat (n div 10) @ [char_of (48 + n mod 10)])"

declare showNat.simps [simp del]

text \<open>
  The three date checks that the cascades apply to a child (a Subtask under
  its Task in \<^verbatim>\<open>updateTask\<close>, an Activity under its Subtask in
  \<^verbatim>\<open>updateTask\<close> and in \<^verbatim>\<open>updateSubtask\<close>): raise the creation date to the
  parent's, lower the expected completion date to the parent's, then raise an
  expected completion date that lies before the creation date; a child that
  was adjusted gets \<^verbatim>\<open>lastEditedDate = now\<close>.
\<close>

definition clampIntoParent :: "Date \<Rightarrow> Date \<Rightarrow> Date \<Rightarrow> 'a Item_scheme \<Rightarrow> 'a Item_scheme" where
  "clampIntoParent now parentCreation parentExpected child =
     (let (c1, u1) = (if creationDate child < parentCreation
                      then (child\<lparr>creationDate := parentCreation\<rparr>, True)
                      else (child, False));
          (c2, u2) = (if expectedCompletionDate c1 > parentExpected
                      then (c1\<lparr>expectedCompletionDate := parentExpected\<rparr>, True)
                      else (c1, u1));
          (c3, u3) = (if expectedCompletionDate c2 < creationDate c2
                      then (c2\<lparr>expectedCompletionDate := creationDate c2\<rparr>, True)
                      else (c2, u2))
      in if u3 then c3\<lparr>lastEditedDate := now\<rparr> else c3)"

definition cascadeActivities :: "Date \<Rightarrow> Subtask \<Rightarrow> Subtask" where
  "cascadeActivities now subtask =
     subtask\<lparr>activities :=
       map (clampIntoParent now (creationDate subtask) (expectedCompletionDate subtask))
           (activities subtask)\<rparr>"

definition cascadeSubtask :: "Date \<Rightarrow> Date \<Rightarrow> Date \<Rightarrow> Subtask \<Rightarrow> Subtask" where
  "cascadeSubtask now taskCreation taskExpected subtask =
     cascadeActivities now (clampIntoParent now taskCreation taskExpected subtask)"

section \<open>Mutation engine: updateTask and updateSubtask\<close>

text \<open>
  The partial update object is the list of its own enumerable properties in
  insertion order, the order in which \<^verbatim>\<open>for (const key in updates)\<close> visits
  them. A key that is present carries a value of the field's type; the two
  optional fields may carry \<^verbatim>\<open>undefined\<close>. The values of
  \<^verbatim>\<open>dependencies\<close> and \<^verbatim>\<open>lastEditedDate\<close> are objects, which \<^verbatim>\<open>!==\<close>
  compares by identity. The item is read from the draft of immer, where an
  array is a proxy that no supplied array is identical to, so a
  \<^verbatim>\<open>dependencies\<close> key always differs. A \<^verbatim>\<open>Date\<close> is not wrapped: the flag of
  \<open>U_lastEditedDate\<close> says whether the supplied object is the very object
  that the item holds.
\<close>

datatype ContainerUpdate =
    U_name string
  | U_description "string option"
  | U_creationDate Date
  | U_expectedCompletionDate Date
  | U_actualCompletionDate "Date option"
  | U_lastEditedDate bool Date
  | U_status Status
  | U_priority Priority
  | U_serialCompletionMandatory bool
  | U_sequenceMandatory bool
  | U_dependencies "string list"
  | U_autoRepeat bool
  | U_schedule Schedule
  | U_reminder Reminder

text \<open>\<^verbatim>\<open>updates.description\<close>: undefined when the key is absent.\<close>

fun updatesDescription :: "ContainerUpdate list \<Rightarrow> string option" where
  "updatesDescription [] = None"
| "updatesDescription (U_description d # us) = d"
| "updatesDescription (u # us) = updatesDescription us"

text \<open>\<^verbatim>\<open>updates.creationDate || updates.expectedCompletionDate\<close>: a Date is truthy.\<close>

fun isBoundKey :: "ContainerUpdate \<Rightarrow> bool" where
  "isBoundKey (U_creationDate d) = True"
| "isBoundKey (U_expectedCompletionDate d) = True"
| "isBoundKey u = False"

definition updatesBounds :: "ContainerUpdate list \<Rightarrow> bool" where
  "updatesBounds updates = list_ex isBoundKey updates"

text \<open>The history entry that is written before the changes are applied.\<close>

definition editHistory :: "string option \<Rightarrow> 'a Item_scheme \<times> bool \<Rightarrow> 'a Item_scheme \<times> bool" where
  "editHistory updDescription ic =
     (let item = fst ic; oldDescription = orEmpty (description item)
      in case updDescription of
           None \<Rightarrow> ic
         | Some d \<Rightarrow>
             if d \<noteq> oldDescription
             then (addHistoryEntry item (lastEditedDate item)
                     (''[EDIT] '' @ (if oldDescription = [] then ''(empty)'' else oldDescription)),
                   True)
             else ic)"

text \<open>One round of the loop \<^verbatim>\<open>for (const key in updates)\<close> of \<^verbatim>\<open>updateTask\<close>.\<close>

fun applyTaskUpdate :: "ContainerUpdate \<Rightarrow> Task \<times> bool \<Rightarrow> Task \<times> bool" where
  "applyTaskUpdate (U_description newValue) (t, changed) =
     (if orEmpty newValue \<noteq> orEmpty (description t)
      then (t\<lparr>description := orUndefined newValue\<rparr>, True) else (t, changed))"
| "applyTaskUpdate (U_creationDate newDate) (t, changed) =
     (if newDate \<noteq> creationDate t
      then (let t1 = t\<lparr>creationDate := newDate\<rparr>;
                currentExpected = expectedCompletionDate t1
            in (if newDate > currentExpected then t1\<lparr>creationDate := currentExpected\<rparr> else t1,
                True))
      else (t, changed))"
| "applyTaskUpdate (U_expectedCompletionDate newDate) (t, changed) =
     (if newDate \<noteq> expectedCompletionDate t
      then (let t1 = t\<lparr>expectedCompletionDate := newDate\<rparr>;
                currentCreation = creationDate t1
            in (if newDate < currentCreation then t1\<lparr>expectedCompletionDate := currentCreation\<rparr> else t1,
                True))
      else (t, changed))"
| "applyTaskUpdate (U_actualCompletionDate newDate) (t, changed) =
     (if newDate \<noteq> actualCompletionDate t
      then (t\<lparr>actualCompletionDate := newDate\<rparr>, True) else (t, changed))"
| "applyTaskUpdate (U_schedule newValue) (t, changed) = (t\<lparr>schedule := newValue\<rparr>, True)"
| "applyTaskUpdate (U_reminder newValue) (t, changed) = (t\<lparr>reminder := newValue\<rparr>, True)"
| "applyTaskUpdate (U_name newValue) (t, changed) =
     (if name t \<noteq> newValue then (t\<lparr>name := newValue\<rparr>, True) else (t, changed))"
| "applyTaskUpdate (U_lastEditedDate same newValue) (t, changed) =
     (if \<not> same then (t\<lparr>lastEditedDate := newValue\<rparr>, True) else (t, changed))"
| "applyTaskUpdate (U_status newValue) (t, changed) =
     (if status t \<noteq> newValue then (t\<lparr>status := newValue\<rparr>, True) else (t, changed))"
| "applyTaskUpdate (U_priority newValue) (t, changed) =
     (if priority t \<noteq> newValue then (t\<lparr>priority := newValue\<rparr>, True) else (t, changed))"
| "applyTaskUpdate (U_serialCompletionMandatory newValue) (t, changed) =
     (if serialCompletionMandatory t \<noteq> newValue
      then (t\<lparr>serialCompletionMandatory := newValue\<rparr>, True) else (t, changed))"
| "applyTaskUpdate (U_sequenceMandatory newValue) (t, changed) =
     (if sequenceMandatory t \<noteq> newValue
      then (t\<lparr>sequenceMandatory := newValue\<rparr>, True) else (t, changed))"
| "applyTaskUpdate (U_dependencies newValue) (t, changed) = (t\<lparr>dependencies := newValue\<rparr>, True)"
| "applyTaskUpdate (U_autoRepeat newValue) (t, changed) =
     (if autoRepeat t \<noteq> newValue then (t\<lparr>autoRepeat := newValue\<rparr>, True) else (t, changed))"

text \<open>
  The recipe of \<^verbatim>\<open>updateTask\<close> on the task found: history, the loop over
  the keys, \<^verbatim>\<open>lastEditedDate\<close>, and the cascade into the subtasks and their
  activities.
\<close>

definition updateTaskItem :: "Date \<Rightarrow> ContainerUpdate list \<Rightarrow> Task \<Rightarrow> Task" where
  "updateTaskItem now updates taskToUpdate =
     (let (t1, changed) = fold applyTaskUpdate updates
                            (editHistory (updatesDescription updates) (taskToUpdate, False));
          t2 = (if changed then t1\<lparr>lastEditedDate := now\<rparr> else t1)
      in if updatesBounds updates
         then t2\<lparr>subtasks :=
                map (cascadeSubtask now (creationDate t2) (expectedCompletionDate t2)) (subtasks t2)\<rparr>
         else t2)"

text \<open>
  \<^verbatim>\<open>updateTask\<close>: the new store and the value returned, \<open>Inr True\<close> for
  \<^verbatim>\<open>true\<close> and \<open>Inl\<close> for the failure string. A task that is found always has
  its list as parent, so the second failure (\<^verbatim>\<open>Task context not found\<close>) has
  no branch here.
\<close>

definition updateTask :: "TaskStore \<Rightarrow> Date \<Rightarrow> string \<Rightarrow> ContainerUpdate list \<Rightarrow> TaskStore \<times> (string + bool)" where
  "updateTask s now taskId updates =
     (case findItemInDraft s taskId of
        Some (FoundTask li ti) \<Rightarrow>
          (modifyTask li ti (updateTaskItem now updates) s, Inr True)
      | _ \<Rightarrow> (s, Inl (''Task with ID '' @ taskId @ '' not found.'')))"

text \<open>One round of the loop of \<^verbatim>\<open>updateSubtask\<close>; the parent task is only read.\<close>

fun applySubtaskUpdate :: "Task \<Rightarrow> ContainerUpdate \<Rightarrow> Subtask \<times> bool \<Rightarrow> Subtask \<times> bool" where
  "applySubtaskUpdate parentTask (U_description newValue) (st, changed) =
     (if orEmpty newValue \<noteq> orEmpty (description st)
      then (st\<lparr>description := orUndefined newValue\<rparr>, True) else (st, changed))"
| "applySubtaskUpdate parentTask (U_creationDate newDate) (st, changed) =
     (if newDate \<noteq> creationDate st
      then (let st1 = st\<lparr>creationDate := newDate\<rparr>;
                parentCreation = creationDate parentTask;
                st2 = (if newDate < parentCreation then st1\<lparr>creationDate := parentCreation\<rparr> else st1)
            in (if expectedCompletionDate st2 < creationDate st2
                then st2\<lparr>expectedCompletionDate := creationDate st2\<rparr> else st2,
                True))
      else (st, changed))"
| "applySubtaskUpdate parentTask (U_expectedCompletionDate newDate) (st, changed) =
     (if newDate \<noteq> expectedCompletionDate st
      then (let st1 = st\<lparr>expectedCompletionDate := newDate\<rparr>;
                parentExpected = expectedCompletionDate parentTask;
                st2 = (if newDate > parentExpected
                       then st1\<lparr>expectedCompletionDate := parentExpected\<rparr> else st1)
            in (if expectedCompletionDate st2 < creationDate st2
                then st2\<lparr>expectedCompletionDate := creationDate st2\<rparr> else st2,
                True))
      else (st, changed))"
| "applySubtaskUpdate parentTask (U_actualCompletionDate newDate) (st, changed) =
     (if newDate \<noteq> actualCompletionDate st
      then (let st1 = st\<lparr>actualCompletionDate := newDate\<rparr>
            in (if expectedCompletionDate st1 < creationDate st1
                then st1\<lparr>expectedCompletionDate := creationDate st1\<rparr> else st1,
                True))
      else (st, changed))"
| "applySubtaskUpdate parentTask (U_schedule newValue) (st, changed) = (st\<lparr>schedule := newValue\<rparr>, True)"
| "applySubtaskUpdate parentTask (U_reminder newValue) (st, changed) = (st\<lparr>reminder := newValue\<rparr>, True)"
| "applySubtaskUpdate parentTask (U_name newValue) (st, changed) =
     (if name st \<noteq> newValue then (st\<lparr>name := newValue\<rparr>, True) else (st, changed))"
| "applySubtaskUpdate parentTask (U_lastEditedDate same newValue) (st, changed) =
     (if \<not> same then (st\<lparr>lastEditedDate := newValue\<rparr>, True) else (st, changed))"
| "applySubtaskUpdate parentTask (U_status newValue) (st, changed) =
     (if status st \<noteq> newValue then (st\<lparr>status := newValue\<rparr>, True) else (st, changed))"
| "applySubtaskUpdate parentTask (U_priority newValue) (st, changed) =
     (if priority st \<noteq> newValue then (st\<lparr>priority := newValue\<rparr>, True) else (st, changed))"
| "applySubtaskUpdate parentTask (U_serialCompletionMandatory newValue) (st, changed) =
     (if serialCompletionMandatory st \<noteq> newValue
      then (st\<lparr>serialCompletionMandatory := newValue\<rparr>, True) else (st, changed))"
| "applySubtaskUpdate parentTask (U_sequenceMandatory newValue) (st, changed) =
     (if sequenceMandatory st \<noteq> newValue
      then (st\<lparr>sequenceMandatory := newValue\<rparr>, True) else (st, changed))"
| "applySubtaskUpdate parentTask (U_dependencies newValue) (st, changed) =
     (st\<lparr>dependencies := newValue\<rparr>, True)"
| "applySubtaskUpdate parentTask (U_autoRepeat newValue) (st, changed) =
     (if autoRepeat st \<noteq> newValue then (st\<lparr>autoRepeat := newValue\<rparr>, True) else (st, changed))"

text \<open>
  The recipe of \<^verbatim>\<open>updateSubtask\<close> on the parent task found, whose subtask at
  index \<open>si\<close> is the one to update: history, the loop over the keys, the two
  \<^verbatim>\<open>lastEditedDate\<close>s, and the cascade into the activities.
\<close>

definition updateSubtaskItem :: "Date \<Rightarrow> Task \<Rightarrow> ContainerUpdate list \<Rightarrow> Subtask \<Rightarrow> Subtask \<times> bool" where
  "updateSubtaskItem now parentTask updates subtaskToUpdate =
     (let (st1, changed) = fold (applySubtaskUpdate parentTask) updates
                             (editHistory (updatesDescription updates) (subtaskToUpdate, False));
          st2 = (if changed then st1\<lparr>lastEditedDate := now\<rparr> else st1)
      in (if updatesBounds updates then cascadeActivities now st2 else st2, changed))"

definition updateSubtaskInTask :: "Date \<Rightarrow> ContainerUpdate list \<Rightarrow> nat \<Rightarrow> Task \<Rightarrow> Task" where
  "updateSubtaskInTask now updates si parentTask =
     (let (st', changed) = updateSubtaskItem now parentTask updates (subtasks parentTask ! si);
          t1 = parentTask\<lparr>subtasks := (subtasks parentTask)[si := st']\<rparr>
      in if changed then t1\<lparr>lastEditedDate := now\<rparr> else t1)"

definition updateSubtask :: "TaskStore \<Rightarrow> Date \<Rightarrow> string \<Rightarrow> ContainerUpdate list \<Rightarrow> TaskStore \<times> (string + bool)" where
  "updateSubtask s now subtaskId updates =
     (case findItemInDraft s subtaskId of
        Some (FoundSubtask li ti si) \<Rightarrow>
          (modifyTask li ti (updateSubtaskInTask now updates si) s, Inr True)
      | _ \<Rightarrow> (s, Inl (''Subtask with ID '' @ subtaskId @ '' not found.'')))"

section \<open>Mutation engine: updateActivity\<close>

datatype ActivityUpdate =
    A_name string
  | A_description "string option"
  | A_creationDate Date
  | A_expectedCompletionDate Date
  | A_actualCompletionDate "Date option"
  | A_lastEditedDate bool Date
  | A_status Status
  | A_priority Priority
  | A_autoRepeat bool
  | A_schedule Schedule
  | A_reminder Reminder
  | A_notes string
  | A_numericValue "int option"
  | A_isSkipped bool
  | A_isDue bool
  | A_dueCount nat

fun activityUpdatesDescription :: "ActivityUpdate list \<Rightarrow> string option" where
  "activityUpdatesDescription [] = None"
| "activityUpdatesDescription (A_description d # us) = d"
| "activityUpdatesDescription (u # us) = activityUpdatesDescription us"

fun updatesSchedule :: "ActivityUpdate list \<Rightarrow> Schedule option" where
  "updatesSchedule [] = None"
| "updatesSchedule (A_schedule x # us) = Some x"
| "updatesSchedule (u # us) = updatesSchedule us"

fun updatesReminder :: "ActivityUpdate list \<Rightarrow> Reminder option" where
  "updatesReminder [] = None"
| "updatesReminder (A_reminder x # us) = Some x"
| "updatesReminder (u # us) = updatesReminder us"

fun updatesIsDue :: "ActivityUpdate list \<Rightarrow> bool option" where
  "updatesIsDue [] = None"
| "updatesIsDue (A_isDue x # us) = Some x"
| "updatesIsDue (u # us) = updatesIsDue us"

fun updatesIsSkipped :: "ActivityUpdate list \<Rightarrow> bool option" where
  "updatesIsSkipped [] = None"
| "updatesIsSkipped (A_isSkipped x # us) = Some x"
| "updatesIsSkipped (u # us) = updatesIsSkipped us"

text \<open>
  \<^verbatim>\<open>updates.dueCount = newDueCount\<close>: an existing key keeps its place, a
  new key goes to the end.
\<close>

fun setDueCount :: "nat \<Rightarrow> ActivityUpdate list \<Rightarrow> ActivityUpdate list" where
  "setDueCount n [] = [A_dueCount n]"
| "setDueCount n (A_dueCount m # us) = A_dueCount n # us"
| "setDueCount n (u # us) = u # setDueCount n us"

text \<open>
  The log entries written before the loop: the activity, the flag
  \<^verbatim>\<open>changed\<close> and the update object, which the \<^verbatim>\<open>[DUE]\<close> step extends.
  The source compares schedules and reminders through \<^verbatim>\<open>JSON.stringify\<close>:
  the texts are equal when the keys, their order and their values are.
\<close>

definition scheduleHistory :: "Date \<Rightarrow> ActivityUpdate list \<Rightarrow> Activity \<times> bool \<Rightarrow> Activity \<times> bool" where
  "scheduleHistory now updates ac =
     (case updatesSchedule updates of
        None \<Rightarrow> ac
      | Some sch \<Rightarrow>
          if sch \<noteq> schedule (fst ac)
          then (addHistoryEntry (fst ac) now
                  (''[SCHEDULE] Schedule updated to: '' @
                     (if recurrenceRule sch = [] then ''none'' else recurrenceRule sch)),
                True)
          else ac)"

definition reminderHistory :: "Date \<Rightarrow> ActivityUpdate list \<Rightarrow> Activity \<times> bool \<Rightarrow> Activity \<times> bool" where
  "reminderHistory now updates ac =
     (case updatesReminder updates of
        None \<Rightarrow> ac
      | Some r \<Rightarrow>
          if r \<noteq> reminder (fst ac)
          then (addHistoryEntry (fst ac) now ''[REMINDER] Reminder updated.'', True)
          else ac)"

definition dueHistory :: "Date \<Rightarrow> ActivityUpdate list \<Rightarrow> Activity \<times> bool \<Rightarrow> (Activity \<times> bool) \<times> ActivityUpdate list" where
  "dueHistory now updates ac =
     (case updatesIsDue updates of
        None \<Rightarrow> (ac, updates)
      | Some d \<Rightarrow>
          if d \<noteq> isDue (fst ac)
          then (if d
                then (let newDueCount = dueCount (fst ac) + 1
                      in ((addHistoryEntry (fst ac) now
                             (''[DUE] Marked due (Count: '' @ showNat newDueCount @ '').''),
                           True),
                          setDueCount newDueCount updates))
                else ((fst ac, True), updates))
          else (ac, updates))"

definition skipHistory :: "Date \<Rightarrow> ActivityUpdate list \<Rightarrow> Activity \<times> bool \<Rightarrow> Activity \<times> bool" where
  "skipHistory now updates ac =
     (case updatesIsSkipped updates of
        None \<Rightarrow> ac
      | Some k \<Rightarrow>
          if k \<noteq> isSkipped (fst ac)
          then (if k then addHistoryEntry (fst ac) now ''[SKIP] Marked skipped.'' else fst ac, True)
          else ac)"

text \<open>One round of the loop of \<^verbatim>\<open>updateActivity\<close>; the parent subtask is only read.\<close>

fun applyActivityUpdate :: "Subtask \<Rightarrow> ActivityUpdate \<Rightarrow> Activity \<times> bool \<Rightarrow> Activity \<times> bool" where
  "applyActivityUpdate parentSubtask (A_description newValue) (a, changed) =
     (if orEmpty newValue \<noteq> orEmpty (description a)
      then (a\<lparr>description := orUndefined newValue\<rparr>, True) else (a, changed))"
| "applyActivityUpdate parentSubtask (A_creationDate newDate) (a, changed) =
     (if newDate \<noteq> creationDate a
      then (let a1 = a\<lparr>creationDate := newDate\<rparr>;
                parentCreation = creationDate parentSubtask;
                a2 = (if newDate < parentCreation then a1\<lparr>creationDate := parentCreation\<rparr> else a1)
            in (if expectedCompletionDate a2 < creationDate a2
                then a2\<lparr>expectedCompletionDate := creationDate a2\<rparr> else a2,
                True))
      else (a, changed))"
| "applyActivityUpdate parentSubtask (A_expectedCompletionDate newDate) (a, changed) =
     (if newDate \<noteq> expectedCompletionDate a
      then (let a1 = a\<lparr>expectedCompletionDate := newDate\<rparr>;
                parentExpected = expectedCompletionDate parentSubtask;
                a2 = (if newDate > parentExpected
                      then a1\<lparr>expectedCompletionDate := parentExpected\<rparr> else a1)
            in (if expectedCompletionDate a2 < creationDate a2
                then a2\<lparr>expectedCompletionDate := creationDate a2\<rparr> else a2,
                True))
      else (a, changed))"
| "applyActivityUpdate parentSubtask (A_actualCompletionDate newDate) (a, changed) =
     (if newDate \<noteq> actualCompletionDate a
      then (let a1 = a\<lparr>actualCompletionDate := newDate\<rparr>
            in (if expectedCompletionDate a1 < creationDate a1
                then a1\<lparr>expectedCompletionDate := creationDate a1\<rparr> else a1,
                True))
      else (a, changed))"
| "applyActivityUpdate parentSubtask (A_schedule newValue) (a, changed) = (a\<lparr>schedule := newValue\<rparr>, True)"
| "applyActivityUpdate parentSubtask (A_reminder newValue) (a, changed) = (a\<lparr>reminder := newValue\<rparr>, True)"
| "applyActivityUpdate parentSubtask (A_autoRepeat newValue) (a, changed) = (a\<lparr>autoRepeat := newValue\<rparr>, True)"
| "applyActivityUpdate parentSubtask (A_notes newValue) (a, changed) = (a\<lparr>notes' := newValue\<rparr>, True)"
| "applyActivityUpdate parentSubtask (A_numericValue newValue) (a, changed) = (a\<lparr>numericValue := newValue\<rparr>, True)"
| "applyActivityUpdate parentSubtask (A_isSkipped newValue) (a, changed) = (a\<lparr>isSkipped := newValue\<rparr>, True)"
| "applyActivityUpdate parentSubtask (A_isDue newValue) (a, changed) = (a\<lparr>isDue := newValue\<rparr>, True)"
| "applyActivityUpdate parentSubtask (A_dueCount newValue) (a, changed) = (a\<lparr>dueCount := newValue\<rparr>, True)"
| "applyActivityUpdate parentSubtask (A_name newValue) (a, changed) =
     (if name a \<noteq> newValue then (a\<lparr>name := newValue\<rparr>, True) else (a, changed))"
| "applyActivityUpdate parentSubtask (A_lastEditedDate same newValue) (a, changed) =
     (if \<not> same then (a\<lparr>lastEditedDate := newValue\<rparr>, True) else (a, changed))"
| "applyActivityUpdate parentSubtask (A_status newValue) (a, changed) =
     (if status a \<noteq> newValue then (a\<lparr>status := newValue\<rparr>, True) else (a, changed))"
| "applyActivityUpdate parentSubtask (A_priority newValue) (a, changed) =
     (if priority a \<noteq> newValue then (a\<lparr>priority := newValue\<rparr>, True) else (a, changed))"

definition updateActivityItem :: "Date \<Rightarrow> Subtask \<Rightarrow> ActivityUpdate list \<Rightarrow> Activity \<Rightarrow> Activity \<times> bool" where
  "updateActivityItem now parentSubtask updates activityToUpdate =
     (let ac1 = editHistory (activityUpdatesDescription updates) (activityToUpdate, False);
          ac2 = scheduleHistory now updates ac1;
          ac3 = reminderHistory now updates ac2;
          (ac4, updates') = dueHistory now updates ac3;
          ac5 = skipHistory now updates' ac4;
          (a1, changed) = fold (applyActivityUpdate parentSubtask) updates' ac5
      in (if changed then a1\<lparr>lastEditedDate := now\<rparr> else a1, changed))"

text \<open>
  \<^verbatim>\<open>parentTask.lastEditedDate = now\<close>, where \<^verbatim>\<open>parentTask\<close> is whatever
  \<^verbatim>\<open>findItemInDraft(draft, parentSubtask.parentId)\<close> returned. On a task list
  the assignment adds a property that is not part of the entity model.
\<close>

fun touch :: "Date \<Rightarrow> Found \<Rightarrow> TaskStore \<Rightarrow> TaskStore" where
  "touch now (FoundTaskList li) s = s"
| "touch now (FoundTask li ti) s = modifyTask li ti (\<lambda>t. t\<lparr>lastEditedDate := now\<rparr>) s"
| "touch now (FoundSubtask li ti si) s = modifySubtask li ti si (\<lambda>st. st\<lparr>lastEditedDate := now\<rparr>) s"
| "touch now (FoundActivity li ti si ai) s = modifyActivity li ti si ai (\<lambda>a. a\<lparr>lastEditedDate := now\<rparr>) s"

definition updateActivity :: "TaskStore \<Rightarrow> Date \<Rightarrow> string \<Rightarrow> ActivityUpdate list \<Rightarrow> TaskStore \<times> (string + bool)" where
  "updateActivity s now activityId updates =
     (case findItemInDraft s activityId of
        Some (FoundActivity li ti si ai) \<Rightarrow>
          (let parentSubtask = subtaskAt s li ti si
           in case findItemInDraft s (Subtask.parentId parentSubtask) of
                None \<Rightarrow> (s, Inl (''Activity context not found for ID '' @ activityId @ ''.''))
              | Some parentTask \<Rightarrow>
                  (let (a', changed) = updateActivityItem now parentSubtask updates
                                         (activityAt s li ti si ai);
                       s1 = modifyActivity li ti si ai (\<lambda>a. a') s
                   in (if changed
                       then touch now parentTask
                              (modifySubtask li ti si (\<lambda>st. st\<lparr>lastEditedDate := now\<rparr>) s1)
                       else s1,
                       Inr True)))
      | _ \<Rightarrow> (s, Inl (''Activity with ID '' @ activityId @ '' not found.'')))"

section \<open>Mutation engine: add, delete, reorder\<close>

text \<open>
  \<^verbatim>\<open>Array.prototype.find\<close> by id, as the position of the first match.
\<close>

fun findIndexById :: "string \<Rightarrow> 'a Entity_scheme list \<Rightarrow> nat option" where
  "findIndexById i [] = None"
| "findIndexById i (x # xs) =
     (if id' x = i then Some 0 else map_option Suc (findIndexById i xs))"

text \<open>\<^verbatim>\<open>xs.forEach((x, index) => x.order = index)\<close>\<close>

definition renumber :: "'a Item_scheme list \<Rightarrow> 'a Item_scheme list" where
  "renumber xs = map (\<lambda>(x, index). x\<lparr>order := index\<rparr>) (zip xs [0..<length xs])"

text \<open>
  The body shared by the three reorder operations: the map from each id to
  its index in the id list (a later occurrence of an id overwrites an
  earlier one), the new order of every child whose id is in the map, and
  the stable sort of the children by \<^verbatim>\<open>a.order - b.order\<close>.
\<close>

definition newOrderMap :: "string list \<Rightarrow> (string \<rightharpoonup> nat)" where
  "newOrderMap ids = fold (\<lambda>(i, index) m. m(i \<mapsto> index)) (zip ids [0..<length ids]) Map.empty"

definition setNewOrder :: "(string \<rightharpoonup> nat) \<Rightarrow> 'a Item_scheme \<Rightarrow> 'a Item_scheme" where
  "setNewOrder m x = (case m (id' x) of None \<Rightarrow> x | Some newOrder \<Rightarrow> x\<lparr>order := newOrder\<rparr>)"

definition reorderChildren :: "string list \<Rightarrow> 'a Item_scheme list \<Rightarrow> 'a Item_scheme list" where
  "reorderChildren ids xs = sort_key order (map (setNewOrder (newOrderMap ids)) xs)"

text \<open>
  \<^verbatim>\<open>addTask\<close>. The id that \<^verbatim>\<open>uuidv4()\<close> returns and the clock are
  parameters; an omitted argument is \<open>None\<close>. The source reads the clock for
  each of the two default dates and for \<^verbatim>\<open>lastEditedDate\<close>; the model has the
  one reading \<open>now\<close> for the three. The result is the new store and
  the task added, \<open>None\<close> when no list has the id.
\<close>

definition week :: int where
  "week = 7 * 24 * 60 * 60 * 1000"

definition emptySchedule :: Schedule where
  "emptySchedule =
     \<lparr>scheduleKeys = [''recurrenceRule'', ''specificTimes'', ''timeZone''],
      recurrenceRule = [], specificTimes = [], timeZone = []\<rparr>"

definition emptyReminder :: Reminder where
  "emptyReminder = \<lparr>reminderKeys = [''remindAt'', ''message''], remindAt = [], message = []\<rparr>"

definition addTask :: "TaskStore \<Rightarrow> Date \<Rightarrow> string \<Rightarrow> string \<Rightarrow> string \<Rightarrow> Priority option \<Rightarrow> Date option \<Rightarrow> Date option \<Rightarrow> TaskStore \<times> Task option" where
  "addTask s now newId listId' name' priorityArg creationArg expectedArg =
     (let priority' = (case priorityArg of None \<Rightarrow> medium | Some p \<Rightarrow> p);
          creation = (case creationArg of None \<Rightarrow> now | Some d \<Rightarrow> d);
          expected0 = (case expectedArg of None \<Rightarrow> now + week | Some d \<Rightarrow> d);
          expected = (if expected0 < creation then creation + week else expected0);
          newTask = \<lparr>id' = newId, name = name', description = Some [],
                     creationDate = creation, expectedCompletionDate = expected,
                     actualCompletionDate = None, lastEditedDate = now, status = todo,
                     priority = priority', order = 0, descriptionHistory = [], attachments = [],
                     autoRepeat = False, schedule = emptySchedule, reminder = emptyReminder,
                     serialCompletionMandatory = False, sequenceMandatory = False,
                     dependencies = [], listId = listId', subtasks = []\<rparr>
      in case findIndexById listId' (taskLists s) of
           None \<Rightarrow> (s, None)
         | Some li \<Rightarrow>
             (let mutableNewTask = newTask\<lparr>order := length (tasks (listAt s li))\<rparr>
              in (modifyList li (\<lambda>l. l\<lparr>tasks := tasks l @ [mutableNewTask]\<rparr>) s,
                  Some mutableNewTask)))"

text \<open>
  \<^verbatim>\<open>deleteTask\<close>: every list is filtered in turn; the first list that
  lost a task is renumbered and ends the loop.
\<close>

fun deleteTaskLoop :: "string \<Rightarrow> TaskList list \<Rightarrow> TaskList list" where
  "deleteTaskLoop taskId [] = []"
| "deleteTaskLoop taskId (list # rest) =
     (let initialLength = length (tasks list);
          list1 = list\<lparr>tasks := filter (\<lambda>t. id' t \<noteq> taskId) (tasks list)\<rparr>
      in if length (tasks list1) < initialLength
         then list1\<lparr>tasks := renumber (tasks list1)\<rparr> # rest
         else list1 # deleteTaskLoop taskId rest)"

definition deleteTask :: "TaskStore \<Rightarrow> string \<Rightarrow> TaskStore" where
  "deleteTask s taskId = s\<lparr>taskLists := deleteTaskLoop taskId (taskLists s)\<rparr>"

definition reorderTasks :: "TaskStore \<Rightarrow> string \<Rightarrow> string list \<Rightarrow> TaskStore" where
  "reorderTasks s listId' taskIds =
     (case findIndexById listId' (taskLists s) of
        None \<Rightarrow> s
      | Some li \<Rightarrow> modifyList li (\<lambda>l. l\<lparr>tasks := reorderChildren taskIds (tasks l)\<rparr>) s)"

definition addSubtask :: "TaskStore \<Rightarrow> Date \<Rightarrow> string \<Rightarrow> string \<Rightarrow> string \<Rightarrow> Priority option \<Rightarrow> TaskStore \<times> Subtask option" where
  "addSubtask s now newId taskId name' priorityArg =
     (case findItemInDraft s taskId of
        Some (FoundTask li ti) \<Rightarrow>
          (let parentTask = taskAt s li ti;
               priority' = (case priorityArg of None \<Rightarrow> medium | Some p \<Rightarrow> p);
               subtaskCreationDate = creationDate parentTask;
               subtaskExpectedCompletionDate =
                 (if expectedCompletionDate parentTask < subtaskCreationDate
                  then subtaskCreationDate else expectedCompletionDate parentTask);
               subtaskToAdd = \<lparr>id' = newId, name = name', description = Some [],
                     creationDate = subtaskCreationDate,
                     expectedCompletionDate = subtaskExpectedCompletionDate,
                     actualCompletionDate = None, lastEditedDate = now, status = todo,
                     priority = priority', order = length (subtasks parentTask),
                     descriptionHistory = [], attachments = [],
                     autoRepeat = False, schedule = emptySchedule, reminder = emptyReminder,
                     serialCompletionMandatory = False, sequenceMandatory = False,
                     dependencies = [], parentId = taskId, activities = []\<rparr>
           in (modifyTask li ti
                 (\<lambda>t. t\<lparr>subtasks := subtasks t @ [subtaskToAdd], lastEditedDate := now\<rparr>) s,
               Some subtaskToAdd))
      | _ \<Rightarrow> (s, None))"

definition deleteSubtask :: "TaskStore \<Rightarrow> Date \<Rightarrow> string \<Rightarrow> TaskStore" where
  "deleteSubtask s now subtaskId =
     (case findItemInDraft s subtaskId of
        Some (FoundSubtask li ti si) \<Rightarrow>
          modifyTask li ti
            (\<lambda>parentTask.
               let initialLength = length (subtasks parentTask);
                   t1 = parentTask\<lparr>subtasks := filter (\<lambda>st. id' st \<noteq> subtaskId) (subtasks parentTask)\<rparr>
               in if length (subtasks t1) < initialLength
                  then t1\<lparr>subtasks := renumber (subtasks t1), lastEditedDate := now\<rparr>
                  else t1) s
      | _ \<Rightarrow> s)"

definition reorderSubtasks :: "TaskStore \<Rightarrow> Date \<Rightarrow> string \<Rightarrow> string list \<Rightarrow> TaskStore" where
  "reorderSubtasks s now taskId subtaskIds =
     (case findItemInDraft s taskId of
        Some (FoundTask li ti) \<Rightarrow>
          modifyTask li ti
            (\<lambda>parentTask.
               if \<not> sequenceMandatory parentTask
               then parentTask\<lparr>subtasks := reorderChildren subtaskIds (subtasks parentTask),
                               lastEditedDate := now\<rparr>
               else parentTask) s
      | _ \<Rightarrow> s)"

definition addActivity :: "TaskStore \<Rightarrow> Date \<Rightarrow> string \<Rightarrow> string \<Rightarrow> string \<Rightarrow> Priority option \<Rightarrow> TaskStore \<times> Activity option" where
  "addActivity s now newId subtaskId name' priorityArg =
     (case findItemInDraft s subtaskId of
        Some (FoundSubtask li ti si) \<Rightarrow>
          (let parentSubtask = subtaskAt s li ti si;
               priority' = (case priorityArg of None \<Rightarrow> medium | Some p \<Rightarrow> p);
               activityCreationDate = creationDate parentSubtask;
               activityExpectedCompletionDate =
                 (if expectedCompletionDate parentSubtask < activityCreationDate
                  then activityCreationDate else expectedCompletionDate parentSubtask);
               activityToAdd = \<lparr>id' = newId, name = name', description = Some [],
                     creationDate = activityCreationDate,
                     expectedCompletionDate = activityExpectedCompletionDate,
                     actualCompletionDate = None, lastEditedDate = now, status = todo,
                     priority = priority', order = length (activities parentSubtask),
                     descriptionHistory = [], attachments = [],
                     autoRepeat = False, schedule = emptySchedule, reminder = emptyReminder,
                     Activity.parentId = subtaskId, lastInstanceDate = None, notes' = [],
                     numericValue = None, isSkipped = False, isDue = False, dueCount = 0\<rparr>
           in (modifyTask li ti (\<lambda>t. t\<lparr>lastEditedDate := now\<rparr>)
                 (modifySubtask li ti si
                    (\<lambda>st. st\<lparr>activities := activities st @ [activityToAdd], lastEditedDate := now\<rparr>) s),
               Some activityToAdd))
      | _ \<Rightarrow> (s, None))"

text \<open>
  \<^verbatim>\<open>deleteActivity\<close>: the parent task is whatever the id in
  \<^verbatim>\<open>parentSubtask.parentId\<close> resolves to; without it nothing is deleted.
  The three assignments after the filter write different fields or the same
  value, so their order does not matter; the model writes
  \<^verbatim>\<open>parentTask.lastEditedDate\<close> first, while the position of that object is
  still the one the locator returned.
\<close>

definition deleteActivity :: "TaskStore \<Rightarrow> Date \<Rightarrow> string \<Rightarrow> TaskStore" where
  "deleteActivity s now activityId =
     (case findItemInDraft s activityId of
        Some (FoundActivity li ti si ai) \<Rightarrow>
          (case findItemInDraft s (Subtask.parentId (subtaskAt s li ti si)) of
             None \<Rightarrow> s
           | Some parentTask \<Rightarrow>
               (let initialLength = length (activities (subtaskAt s li ti si));
                    remaining = filter (\<lambda>a. id' a \<noteq> activityId) (activities (subtaskAt s li ti si))
                in if length remaining < initialLength
                   then modifySubtask li ti si
                          (\<lambda>st. st\<lparr>activities :=
                                     renumber (filter (\<lambda>a. id' a \<noteq> activityId) (activities st)),
                                   lastEditedDate := now\<rparr>)
                          (touch now parentTask s)
                   else modifySubtask li ti si
                          (\<lambda>st. st\<lparr>activities := filter (\<lambda>a. id' a \<noteq> activityId) (activities st)\<rparr>) s))
      | _ \<Rightarrow> s)"

definition reorderActivities :: "TaskStore \<Rightarrow> Date \<Rightarrow> string \<Rightarrow> string list \<Rightarrow> TaskStore" where
  "reorderActivities s now subtaskId activityIds =
     (case findItemInDraft s subtaskId of
        Some (FoundSubtask li ti si) \<Rightarrow>
          (if \<not> sequenceMandatory (subtaskAt s li ti si)
           then modifyTask li ti (\<lambda>t. t\<lparr>lastEditedDate := now\<rparr>)
                  (modifySubtask li ti si
                     (\<lambda>st. st\<lparr>activities := reorderChildren activityIds (activities st),
                               lastEditedDate := now\<rparr>) s)
           else s)
      | _ \<Rightarrow> s)"

section \<open>Read-only helpers of the store\<close>

datatype AnyItem = ItemTaskList TaskList | ItemTask Task | ItemSubtask Subtask | ItemActivity Activity

datatype WorkItem = WTask Task | WSubtask Subtask | WActivity Activity

text \<open>
  \<^verbatim>\<open>findItemRecursive\<close>, one function for each level of its recursion. The
  result is the item under the constructor of its \<^verbatim>\<open>type\<close>, and the
  \<^verbatim>\<open>parentInfo\<close> that was passed down.
\<close>

fun findRecursiveActivities :: "string \<Rightarrow> Activity list \<Rightarrow> AnyItem option \<Rightarrow> (AnyItem \<times> AnyItem option) option" where
  "findRecursiveActivities i [] parentInfo = None"
| "findRecursiveActivities i (item # rest) parentInfo =
     (if id' item = i then Some (ItemActivity item, parentInfo)
      else findRecursiveActivities i rest parentInfo)"

fun findRecursiveSubtasks :: "string \<Rightarrow> Subtask list \<Rightarrow> AnyItem option \<Rightarrow> (AnyItem \<times> AnyItem option) option" where
  "findRecursiveSubtasks i [] parentInfo = None"
| "findRecursiveSubtasks i (item # rest) parentInfo =
     (if id' item = i then Some (ItemSubtask item, parentInfo)
      else (case findRecursiveActivities i (activities item) (Some (ItemSubtask item)) of
              Some found \<Rightarrow> Some found
            | None \<Rightarrow> findRecursiveSubtasks i rest parentInfo))"

fun findRecursiveTasks :: "string \<Rightarrow> Task list \<Rightarrow> AnyItem option \<Rightarrow> (AnyItem \<times> AnyItem option) option" where
  "findRecursiveTasks i [] parentInfo = None"
| "findRecursiveTasks i (item # rest) parentInfo =
     (if id' item = i then Some (ItemTask item, parentInfo)
      else (case findRecursiveSubtasks i (subtasks item) (Some (ItemTask item)) of
              Some found \<Rightarrow> Some found
            | None \<Rightarrow> findRecursiveTasks i rest parentInfo))"

fun findRecursiveLists :: "string \<Rightarrow> TaskList list \<Rightarrow> AnyItem option \<Rightarrow> (AnyItem \<times> AnyItem option) option" where
  "findRecursiveLists i [] parentInfo = None"
| "findRecursiveLists i (item # rest) parentInfo =
     (if id' item = i then Some (ItemTaskList item, parentInfo)
      else (case findRecursiveTasks i (tasks item) (Some (ItemTaskList item)) of
              Some found \<Rightarrow> Some found
            | None \<Rightarrow> findRecursiveLists i rest parentInfo))"

definition findItem :: "TaskStore \<Rightarrow> string \<Rightarrow> (AnyItem \<times> AnyItem option) option" where
  "findItem s i = findRecursiveLists i (taskLists s) None"

text \<open>
  \<^verbatim>\<open>findParentListRecursive\<close>: the first list that has the id, on itself or
  on one of its tasks, subtasks or activities.
\<close>

definition listHasId :: "string \<Rightarrow> TaskList \<Rightarrow> bool" where
  "listHasId itemId list =
     (id' list = itemId \<or>
      list_ex (\<lambda>task. id' task = itemId) (tasks list) \<or>
      list_ex (\<lambda>task.
          list_ex (\<lambda>subtask. id' subtask = itemId) (subtasks task) \<or>
          list_ex (\<lambda>subtask. list_ex (\<lambda>activity. id' activity = itemId) (activities subtask))
            (subtasks task))
        (tasks list))"

definition findParentList :: "TaskStore \<Rightarrow> string \<Rightarrow> TaskList option" where
  "findParentList s itemId = find (listHasId itemId) (taskLists s)"

definition getAllItemsRecursive :: "TaskList list \<Rightarrow> WorkItem list" where
  "getAllItemsRecursive allLists =
     concat (map (\<lambda>list.
       concat (map (\<lambda>task.
         WTask task #
           concat (map (\<lambda>subtask. WSubtask subtask # map WActivity (activities subtask))
                    (subtasks task)))
         (tasks list)))
       allLists)"

definition getAllItems :: "TaskStore \<Rightarrow> WorkItem list" where
  "getAllItems s = getAllItemsRecursive (taskLists s)"

section \<open>Serial-completion gate\<close>

text \<open>The loop over the siblings in \<^verbatim>\<open>canStartItem\<close>.\<close>

fun precedingDone :: "string \<Rightarrow> nat \<Rightarrow> 'a Item_scheme list \<Rightarrow> bool" where
  "precedingDone itemId currentOrder [] = True"
| "precedingDone itemId currentOrder (sibling # rest) =
     (if id' sibling = itemId then precedingDone itemId currentOrder rest
      else if order sibling < currentOrder \<and> status sibling \<noteq> done' then False
      else precedingDone itemId currentOrder rest)"

definition canStartItem :: "TaskStore \<Rightarrow> string \<Rightarrow> bool" where
  "canStartItem s itemId =
     (case findItem s itemId of
        None \<Rightarrow> False
      | Some (ItemTask t, Some (ItemTaskList l)) \<Rightarrow> True
      | Some (ItemSubtask st, Some (ItemTask parentTask)) \<Rightarrow>
          (if \<not> serialCompletionMandatory parentTask then True
           else precedingDone (id' st) (order st) (subtasks parentTask))
      | Some (ItemActivity a, Some (ItemSubtask parentSubtask)) \<Rightarrow>
          (if \<not> serialCompletionMandatory parentSubtask then True
           else precedingDone (id' a) (order a) (activities parentSubtask))
      | Some (ItemTaskList l, p) \<Rightarrow> True
      | _ \<Rightarrow> True)"

section \<open>Local time and the library date-fns\<close>

text \<open>
  The Today selector calls \<^verbatim>\<open>isPast\<close> and \<^verbatim>\<open>differenceInDays\<close> of the library
  date-fns, which the repository imports; they are modelled here after the
  source of the library (version 2 and later). \<^verbatim>\<open>differenceInDays\<close> reads the
  local fields of its dates (year, month, day, hours and so on), so its
  result depends on the time zone of the host. A time zone is given by the two offsets of ECMAScript's
  \<^verbatim>\<open>LocalTZA\<close>, in milliseconds: the offset of local time from UTC at an
  instant, and the offset that resolves a local reading to an instant, which
  for a reading that a clock change skips or repeats is the offset before
  the change. The local reading of an instant is the number of milliseconds
  that its local fields make up, \<open>LocalTime\<close>; \<open>UTC\<close> resolves a reading.
\<close>

definition msPerDay :: int where
  "msPerDay = 24 * 60 * 60 * 1000"

record Zone =
  offsetAtInstant :: "Date \<Rightarrow> int"
  offsetOfReading :: "int \<Rightarrow> int"

definition LocalTime :: "Zone \<Rightarrow> Date \<Rightarrow> int" where
  "LocalTime zone t = t + offsetAtInstant zone t"

definition UTC :: "Zone \<Rightarrow> int \<Rightarrow> Date" where
  "UTC zone reading = reading - offsetOfReading zone reading"

text \<open>
  The methods of \<^verbatim>\<open>Date\<close> that the library calls.
  \<^verbatim>\<open>date.setHours(0, 0, 0, 0)\<close> and \<^verbatim>\<open>date.setDate(date.getDate() - days)\<close>
  change the local reading (to the start of its day, and by whole days) and
  resolve the new reading to an instant. \<^verbatim>\<open>Math.round(n / d)\<close> for a positive
  \<open>d\<close> is the nearest integer, a half rounded up.
\<close>

definition setHoursZero :: "Zone \<Rightarrow> Date \<Rightarrow> Date" where
  "setHoursZero zone date = UTC zone (LocalTime zone date div msPerDay * msPerDay)"

definition setDateBack :: "Zone \<Rightarrow> Date \<Rightarrow> int \<Rightarrow> Date" where
  "setDateBack zone date days = UTC zone (LocalTime zone date - days * msPerDay)"

definition mathRound :: "int \<Rightarrow> int \<Rightarrow> int" where
  "mathRound n d = (2 * n + d) div (2 * d)"

text \<open>
  The functions of date-fns. \<^verbatim>\<open>isPast(date)\<close> is \<^verbatim>\<open>date < Date.now()\<close>.
  \<^verbatim>\<open>getTimezoneOffsetInMilliseconds(date)\<close> is the instant minus
  \<^verbatim>\<open>Date.UTC\<close> of the local fields, that is minus the local reading.
  \<^verbatim>\<open>compareLocalAsc\<close> takes the first difference that is not zero among the
  local fields from the year down to the milliseconds, and returns its sign:
  the sign of the difference of the two local readings.
  \<^verbatim>\<open>differenceInDays\<close> counts the calendar days between the two dates, moves
  the left date by that many days onto the day of the right one, and takes
  one day off when the last day is not full.
\<close>

definition isPast :: "Date \<Rightarrow> Date \<Rightarrow> bool" where
  "isPast now date = (date < now)"

definition startOfDay :: "Zone \<Rightarrow> Date \<Rightarrow> Date" where
  "startOfDay zone date = setHoursZero zone date"

definition getTimezoneOffsetInMilliseconds :: "Zone \<Rightarrow> Date \<Rightarrow> int" where
  "getTimezoneOffsetInMilliseconds zone date = date - LocalTime zone date"

definition differenceInCalendarDays :: "Zone \<Rightarrow> Date \<Rightarrow> Date \<Rightarrow> int" where
  "differenceInCalendarDays zone dateLeft dateRight =
     (let startOfDayLeft = startOfDay zone dateLeft;
          startOfDayRight = startOfDay zone dateRight;
          timestampLeft = startOfDayLeft - getTimezoneOffsetInMilliseconds zone startOfDayLeft;
          timestampRight = startOfDayRight - getTimezoneOffsetInMilliseconds zone startOfDayRight
      in mathRound (timestampLeft - timestampRight) msPerDay)"

definition compareLocalAsc :: "Zone \<Rightarrow> Date \<Rightarrow> Date \<Rightarrow> int" where
  "compareLocalAsc zone dateLeft dateRight =
     (let diff = LocalTime zone dateLeft - LocalTime zone dateRight
      in if diff < 0 then - 1 else if diff > 0 then 1 else 0)"

definition differenceInDays :: "Zone \<Rightarrow> Date \<Rightarrow> Date \<Rightarrow> int" where
  "differenceInDays zone dateLeft dateRight =
     (let sign = compareLocalAsc zone dateLeft dateRight;
          difference = abs (differenceInCalendarDays zone dateLeft dateRight);
          dateLeft' = setDateBack zone dateLeft (sign * difference);
          isLastDayNotFull = (if compareLocalAsc zone dateLeft' dateRight = - sign then 1 else 0)
      in sign * (difference - isLastDayNotFull))"

text \<open>
  Two time zones: UTC, and New York around the clock change of 14 March 2021,
  where local time is five hours behind UTC until 07:00 UTC of that day
  (02:00 local, which then reads 03:00) and four hours behind from then on.
  \<open>saturdayNoon\<close> is 12:00 in New York on 13 March 2021 and \<open>mondayNoon\<close> is
  12:00 there on 15 March, 47 hours later.
\<close>

definition utcZone :: Zone where
  "utcZone = \<lparr>offsetAtInstant = (\<lambda>t. 0), offsetOfReading = (\<lambda>reading. 0)\<rparr>"

definition msPerHour :: int where
  "msPerHour = 60 * 60 * 1000"

definition springForward :: Date where
  "springForward = 1615705200000"

definition newYork :: Zone where
  "newYork =
     \<lparr>offsetAtInstant = (\<lambda>t. if t < springForward then - 5 * msPerHour else - 4 * msPerHour),
      offsetOfReading = (\<lambda>reading. if reading < springForward - 4 * msPerHour
                                   then - 5 * msPerHour else - 4 * msPerHour)\<rparr>"

definition saturdayNoon :: Date where
  "saturdayNoon = 1615654800000"

definition mondayNoon :: Date where
  "mondayNoon = saturdayNoon + 47 * msPerHour"

section \<open>Today selector\<close>

text \<open>
  The selector reads the clock once for \<^verbatim>\<open>today\<close> and again in every
  \<^verbatim>\<open>isPast\<close>; the model has the one instant \<open>today\<close> for both.
\<close>

definition priorityScore :: "Priority \<Rightarrow> int" where
  "priorityScore p = (case p of high \<Rightarrow> 3 | medium \<Rightarrow> 2 | low \<Rightarrow> 1)"

definition statusScore :: "Status \<Rightarrow> int" where
  "statusScore st = (case st of inprogress \<Rightarrow> 4 | started \<Rightarrow> 3 | todo \<Rightarrow> 2 | done' \<Rightarrow> 0)"

text \<open>
  The ids and names for the breadcrumb: \<^verbatim>\<open>parentId\<close>, \<^verbatim>\<open>grandparentId\<close>,
  \<^verbatim>\<open>taskName\<close> and \<^verbatim>\<open>subtaskName\<close>.
\<close>

definition parentNames :: "TaskStore \<Rightarrow> string \<Rightarrow> string option \<times> string option \<times> string option \<times> string option" where
  "parentNames s itemParentId =
     (case findItem s itemParentId of
        Some (ItemTask t, p) \<Rightarrow> (Some itemParentId, Some (listId t), Some (name t), None)
      | Some (ItemSubtask st, p) \<Rightarrow>
          (Some itemParentId, Some (Subtask.parentId st),
           (case findItem s (Subtask.parentId st) of
              Some (ItemTask t, p') \<Rightarrow> Some (name t)
            | _ \<Rightarrow> None),
           Some (name st))
      | _ \<Rightarrow> (Some itemParentId, None, None, None))"

fun breadcrumb :: "TaskStore \<Rightarrow> WorkItem \<Rightarrow> string option \<times> string option \<times> string option \<times> string option" where
  "breadcrumb s (WTask t) = (Some (listId t), None, None, None)"
| "breadcrumb s (WSubtask st) = parentNames s (Subtask.parentId st)"
| "breadcrumb s (WActivity a) = parentNames s (Activity.parentId a)"

fun typeOf :: "WorkItem \<Rightarrow> ItemType" where
  "typeOf (WTask t) = TaskType"
| "typeOf (WSubtask st) = SubtaskType"
| "typeOf (WActivity a) = ActivityType"

text \<open>
  The body of \<^verbatim>\<open>allItems.forEach\<close>: \<open>None\<close> where the callback returns
  without a push. \<open>item\<close> is the task, subtask or activity, \<open>original\<close> the same
  object in the union type.
\<close>

definition todayEntry :: "Zone \<Rightarrow> TaskStore \<Rightarrow> Date \<Rightarrow> 'a Item_scheme \<Rightarrow> WorkItem \<Rightarrow> WorkItem TodayItem option" where
  "todayEntry zone s today item original =
     (if status item = done' then None
      else let isHighOrMedium = (priority item = high \<or> priority item = medium)
      in if \<not> isHighOrMedium then None
      else let expectedDate = expectedCompletionDate item;
               isOverdue' = (isPast today expectedDate \<and> status item \<noteq> done');
               daysUntilDue' = differenceInDays zone expectedDate today;
               isDueSoon = (daysUntilDue' \<le> 7)
      in if isOverdue' \<or> isDueSoon
         then (let urgencyScore0 = priorityScore (priority item) * 10;
                   urgencyScore1 = urgencyScore0 + statusScore (status item) * 5;
                   urgencyScore2 = urgencyScore1 - daysUntilDue';
                   urgencyScore3 = (if isOverdue' then urgencyScore2 + 10 else urgencyScore2);
                   (parentId', grandparentId', taskName', subtaskName') = breadcrumb s original
               in Some \<lparr>TodayItem.id' = id' item, TodayItem.parentId = parentId',
                        grandparentId = grandparentId', itemType = typeOf original,
                        TodayItem.name = name item, TodayItem.priority = priority item,
                        TodayItem.status = status item,
                        TodayItem.creationDate = creationDate item,
                        TodayItem.expectedCompletionDate = expectedCompletionDate item,
                        isOverdue = isOverdue', daysUntilDue = daysUntilDue',
                        urgencyScore = urgencyScore3,
                        listName = map_option name (findParentList s (id' item)),
                        taskName = taskName', subtaskName = subtaskName',
                        originalItem = original\<rparr>)
         else None)"

fun todayEntryOf :: "Zone \<Rightarrow> TaskStore \<Rightarrow> Date \<Rightarrow> WorkItem \<Rightarrow> WorkItem TodayItem option" where
  "todayEntryOf zone s today (WTask t) = todayEntry zone s today t (WTask t)"
| "todayEntryOf zone s today (WSubtask st) = todayEntry zone s today st (WSubtask st)"
| "todayEntryOf zone s today (WActivity a) = todayEntry zone s today a (WActivity a)"

text \<open>
  \<^verbatim>\<open>getTodayItems\<close>: the entries pushed in scan order, then sorted by
  \<^verbatim>\<open>b.urgencyScore - a.urgencyScore\<close> (a stable sort, descending). The time
  zone of the host is a parameter.
\<close>

definition getTodayItems :: "Zone \<Rightarrow> TaskStore \<Rightarrow> Date \<Rightarrow> WorkItem TodayItem list" where
  "getTodayItems zone s today =
     sort_key (\<lambda>entry. - urgencyScore entry)
       (List.map_filter (todayEntryOf zone s today) (getAllItems s))"

section \<open>Example stores\<close>

text \<open>The initial state of the store, and a small tree built by the add operations.\<close>

definition initialState :: TaskStore where
  "initialState =
     \<lparr>taskLists = [\<lparr>id' = ''default-list'', name = ''Project'', tasks = []\<rparr>],
      isLoading = False, error = None\<rparr>"

definition demoStore :: TaskStore where
  "demoStore =
     (let s1 = fst (addTask initialState 0 ''T'' ''default-list'' ''Task'' (Some high) (Some 0) (Some 10));
          s2 = fst (addSubtask s1 0 ''S1'' ''T'' ''first'' None);
          s3 = fst (addSubtask s2 0 ''S2'' ''T'' ''second'' None);
          s4 = fst (addActivity s3 0 ''A1'' ''S1'' ''one'' None)
      in fst (addActivity s4 0 ''A2'' ''S1'' ''two'' None))"

section \<open>Positions, ids and the predicates of the statements\<close>

text \<open>
  A position is valid when its indices are in range; \<open>idAt\<close> is the id of the
  object there. The ids of a store, in tree shape, are all that the locator
  reads. \<open>datesOkAt\<close> is the invariant
  \<^verbatim>\<open>expectedCompletionDate >= creationDate\<close> of the item at a position.
\<close>

fun validPos :: "TaskStore \<Rightarrow> Found \<Rightarrow> bool" where
  "validPos s (FoundTaskList li) = (li < length (taskLists s))"
| "validPos s (FoundTask li ti) = (li < length (taskLists s) \<and> ti < length (tasks (listAt s li)))"
| "validPos s (FoundSubtask li ti si) =
     (li < length (taskLists s) \<and> ti < length (tasks (listAt s li)) \<and>
      si < length (subtasks (taskAt s li ti)))"
| "validPos s (FoundActivity li ti si ai) =
     (li < length (taskLists s) \<and> ti < length (tasks (listAt s li)) \<and>
      si < length (subtasks (taskAt s li ti)) \<and> ai < length (activities (subtaskAt s li ti si)))"

fun idAt :: "TaskStore \<Rightarrow> Found \<Rightarrow> string" where
  "idAt s (FoundTaskList li) = id' (listAt s li)"
| "idAt s (FoundTask li ti) = id' (taskAt s li ti)"
| "idAt s (FoundSubtask li ti si) = id' (subtaskAt s li ti si)"
| "idAt s (FoundActivity li ti si ai) = id' (activityAt s li ti si ai)"

definition idsOfSubtask :: "Subtask \<Rightarrow> string \<times> string list" where
  "idsOfSubtask st = (id' st, map id' (activities st))"

definition idsOfTask :: "Task \<Rightarrow> string \<times> (string \<times> string list) list" where
  "idsOfTask t = (id' t, map idsOfSubtask (subtasks t))"

definition idsOfList :: "TaskList \<Rightarrow> string \<times> (string \<times> (string \<times> string list) list) list" where
  "idsOfList l = (id' l, map idsOfTask (tasks l))"

definition idsOfStore :: "TaskStore \<Rightarrow> (string \<times> (string \<times> (string \<times> string list) list) list) list" where
  "idsOfStore s = map idsOfList (taskLists s)"

fun datesOkAt :: "TaskStore \<Rightarrow> Found \<Rightarrow> bool" where
  "datesOkAt s (FoundTaskList li) = True"
| "datesOkAt s (FoundTask li ti) =
     (creationDate (taskAt s li ti) \<le> expectedCompletionDate (taskAt s li ti))"
| "datesOkAt s (FoundSubtask li ti si) =
     (creationDate (subtaskAt s li ti si) \<le> expectedCompletionDate (subtaskAt s li ti si))"
| "datesOkAt s (FoundActivity li ti si ai) =
     (creationDate (activityAt s li ti si ai) \<le> expectedCompletionDate (activityAt s li ti si ai))"

text \<open>What one round of the loop of \<^verbatim>\<open>updateTask\<close> leaves alone.\<close>

definition taskFrame :: "Task \<Rightarrow> Task \<Rightarrow> bool" where
  "taskFrame t t' = (id' t' = id' t \<and> order t' = order t \<and> listId t' = listId t \<and> subtasks t' = subtasks t)"

text \<open>The same for \<^verbatim>\<open>updateSubtask\<close>, and what \<^verbatim>\<open>updateActivity\<close> keeps of an activity.\<close>

definition subtaskFrame :: "Subtask \<Rightarrow> Subtask \<Rightarrow> bool" where
  "subtaskFrame st st' =
     (id' st' = id' st \<and> order st' = order st \<and> Subtask.parentId st' = Subtask.parentId st \<and>
      activities st' = activities st)"

definition activityKept :: "Activity \<Rightarrow> Activity \<times> bool \<Rightarrow> bool" where
  "activityKept a ac =
     (id' (fst ac) = id' a \<and>
      (creationDate a \<le> expectedCompletionDate a \<longrightarrow>
       creationDate (fst ac) \<le> expectedCompletionDate (fst ac)))"

text \<open>
  The kind of item an id resolves to, and the link from a subtask to its
  task that the entity model prescribes: \<^verbatim>\<open>parentId\<close> of a subtask is the
  id of the task that holds it (\<^verbatim>\<open>addSubtask\<close> creates it so).
\<close>

definition resolvesToTask :: "TaskStore \<Rightarrow> string \<Rightarrow> bool" where
  "resolvesToTask s i = (case findItemInDraft s i of Some (FoundTask li ti) \<Rightarrow> True | _ \<Rightarrow> False)"

definition resolvesToSubtask :: "TaskStore \<Rightarrow> string \<Rightarrow> bool" where
  "resolvesToSubtask s i = (case findItemInDraft s i of Some (FoundSubtask li ti si) \<Rightarrow> True | _ \<Rightarrow> False)"

definition resolvesToActivity :: "TaskStore \<Rightarrow> string \<Rightarrow> bool" where
  "resolvesToActivity s i = (case findItemInDraft s i of Some (FoundActivity li ti si ai) \<Rightarrow> True | _ \<Rightarrow> False)"

definition parentLinks :: "TaskStore \<Rightarrow> bool" where
  "parentLinks s =
     list_all (\<lambda>l. list_all (\<lambda>t. list_all (\<lambda>st. Subtask.parentId st = id' t) (subtasks t)) (tasks l))
       (taskLists s)"

text \<open>
  All the ids of a store, in scan order. In the entity model they are
  pairwise distinct: every id but that of the default list is a fresh
  \<^verbatim>\<open>uuidv4()\<close>.
\<close>

definition flatIdsOfSubtask :: "Subtask \<Rightarrow> string list" where
  "flatIdsOfSubtask st = id' st # map id' (activities st)"

definition flatIdsOfTask :: "Task \<Rightarrow> string list" where
  "flatIdsOfTask t = id' t # concat (map flatIdsOfSubtask (subtasks t))"

definition flatIdsOfList :: "TaskList \<Rightarrow> string list" where
  "flatIdsOfList l = id' l # concat (map flatIdsOfTask (tasks l))"

definition allIds :: "TaskStore \<Rightarrow> string list" where
  "allIds s = concat (map flatIdsOfList (taskLists s))"

text \<open>
  A key of a partial update that holds a primitive whose value equals the
  task's current value (a description with \<^verbatim>\<open>undefined\<close> and \<open>''\<close> taken as
  equal). The keys of the dates, of the schedule and the reminder, and of the
  array \<^verbatim>\<open>dependencies\<close> are not of this kind.
\<close>

fun sameAsCurrent :: "Task \<Rightarrow> ContainerUpdate \<Rightarrow> bool" where
  "sameAsCurrent t (U_name v) = (v = name t)"
| "sameAsCurrent t (U_description v) = (orEmpty v = orEmpty (description t))"
| "sameAsCurrent t (U_status v) = (v = status t)"
| "sameAsCurrent t (U_priority v) = (v = priority t)"
| "sameAsCurrent t (U_serialCompletionMandatory v) = (v = serialCompletionMandatory t)"
| "sameAsCurrent t (U_sequenceMandatory v) = (v = sequenceMandatory t)"
| "sameAsCurrent t (U_autoRepeat v) = (v = autoRepeat t)"
| "sameAsCurrent t (U_dependencies v) = False"
| "sameAsCurrent t (U_lastEditedDate same v) = False"
| "sameAsCurrent t (U_creationDate v) = False"
| "sameAsCurrent t (U_expectedCompletionDate v) = False"
| "sameAsCurrent t (U_actualCompletionDate v) = False"
| "sameAsCurrent t (U_schedule v) = False"
| "sameAsCurrent t (U_reminder v) = False"

text \<open>Two more example stores: the demo tree with its reorder locks set, and with serial completion set.\<close>

definition lockedStore :: TaskStore where
  "lockedStore =
     fst (updateSubtask (fst (updateTask demoStore 1 ''T'' [U_sequenceMandatory True]))
            2 ''S1'' [U_sequenceMandatory True])"

definition serialStore :: TaskStore where
  "serialStore =
     fst (updateSubtask (fst (updateTask demoStore 1 ''T'' [U_serialCompletionMandatory True]))
            2 ''S1'' [U_serialCompletionMandatory True])"

text \<open>
  The demo tree after \<^verbatim>\<open>updateSubtask('S1', {creationDate: 8, expectedCompletionDate: 9})\<close>:
  the task spans 0 to 10, its first subtask and the two activities 8 to 9.
\<close>

definition narrowedStore :: TaskStore where
  "narrowedStore = fst (updateSubtask demoStore 1 ''S1'' [U_creationDate 8, U_expectedCompletionDate 9])"

text \<open>
  The fields of an item of the union type, and the condition of the Today
  selector as the claims word it: not done, priority high or medium, and
  overdue or due within seven days.
\<close>

fun workStatus :: "WorkItem \<Rightarrow> Status" where
  "workStatus (WTask t) = status t"
| "workStatus (WSubtask st) = status st"
| "workStatus (WActivity a) = status a"

fun workPriority :: "WorkItem \<Rightarrow> Priority" where
  "workPriority (WTask t) = priority t"
| "workPriority (WSubtask st) = priority st"
| "workPriority (WActivity a) = priority a"

fun workExpected :: "WorkItem \<Rightarrow> Date" where
  "workExpected (WTask t) = expectedCompletionDate t"
| "workExpected (WSubtask st) = expectedCompletionDate st"
| "workExpected (WActivity a) = expectedCompletionDate a"

definition includedToday :: "Zone \<Rightarrow> Date \<Rightarrow> WorkItem \<Rightarrow> bool" where
  "includedToday zone today w =
     (workStatus w \<noteq> done' \<and> (workPriority w = high \<or> workPriority w = medium) \<and>
      (workExpected w < today \<or> differenceInDays zone (workExpected w) today \<le> 7))"

text \<open>
  The task, subtask or activity at a position of the tree, and the positions
  of all of them in scan order.
\<close>

fun workItemAt :: "TaskStore \<Rightarrow> Found \<Rightarrow> WorkItem option" where
  "workItemAt s (FoundTaskList li) = None"
| "workItemAt s (FoundTask li ti) = Some (WTask (taskAt s li ti))"
| "workItemAt s (FoundSubtask li ti si) = Some (WSubtask (subtaskAt s li ti si))"
| "workItemAt s (FoundActivity li ti si ai) = Some (WActivity (activityAt s li ti si ai))"

definition subtaskPositions :: "TaskStore \<Rightarrow> nat \<Rightarrow> nat \<Rightarrow> nat \<Rightarrow> Found list" where
  "subtaskPositions s li ti si =
     FoundSubtask li ti si # map (FoundActivity li ti si) [0..<length (activities (subtaskAt s li ti si))]"

definition taskPositions :: "TaskStore \<Rightarrow> nat \<Rightarrow> nat \<Rightarrow> Found list" where
  "taskPositions s li ti =
     FoundTask li ti # concat (map (subtaskPositions s li ti) [0..<length (subtasks (taskAt s li ti))])"

definition listPositions :: "TaskStore \<Rightarrow> nat \<Rightarrow> Found list" where
  "listPositions s li = concat (map (taskPositions s li) [0..<length (tasks (listAt s li))])"

definition workPositions :: "TaskStore \<Rightarrow> Found list" where
  "workPositions s = concat (map (listPositions s) [0..<length (taskLists s)])"

text \<open>
  The number of full days in a number of milliseconds, the fraction
  truncated towards zero. A local reading exists in a time zone when the
  instant it resolves to shows it again; the readings inside the hour that a
  clock change skips do not. \<open>readingsExist\<close> names the three readings that
  \<^verbatim>\<open>differenceInDays\<close> sets on its dates: the start of the day of either
  date, and the time of day of the left date on the day of the right one.
\<close>

definition fullDays :: "int \<Rightarrow> int" where
  "fullDays ms = (if 0 \<le> ms then ms div msPerDay else - ((- ms) div msPerDay))"

definition readingExists :: "Zone \<Rightarrow> int \<Rightarrow> bool" where
  "readingExists zone reading = (LocalTime zone (UTC zone reading) = reading)"

definition readingsExist :: "Zone \<Rightarrow> Date \<Rightarrow> Date \<Rightarrow> bool" where
  "readingsExist zone dateLeft dateRight =
     (readingExists zone (LocalTime zone dateLeft div msPerDay * msPerDay) \<and>
      readingExists zone (LocalTime zone dateRight div msPerDay * msPerDay) \<and>
      readingExists zone (LocalTime zone dateRight div msPerDay * msPerDay
                          + LocalTime zone dateLeft mod msPerDay))"

text \<open>
  The urgency score with \<^verbatim>\<open>daysUntilDue\<close> as the specification words it,
  \<^verbatim>\<open>floor(expectedCompletionDate - now, in days)\<close>; \<open>div\<close> on \<open>int\<close> rounds
  towards minus infinity.
\<close>

definition claimedDaysUntilDue :: "Date \<Rightarrow> Date \<Rightarrow> int" where
  "claimedDaysUntilDue expected today = (expected - today) div msPerDay"

definition claimedUrgencyScore :: "Date \<Rightarrow> WorkItem \<Rightarrow> int" where
  "claimedUrgencyScore today w =
     (case workPriority w of high \<Rightarrow> 3 | medium \<Rightarrow> 2 | low \<Rightarrow> 1) * 10 +
     (case workStatus w of inprogress \<Rightarrow> 4 | started \<Rightarrow> 3 | todo \<Rightarrow> 2 | done' \<Rightarrow> 0) * 5 -
     claimedDaysUntilDue (workExpected w) today +
     (if workExpected w < today then 10 else 0)"

text \<open>A store with one task of high priority, created at 0 and expected one day later.\<close>

definition lateStore :: TaskStore where
  "lateStore = fst (addTask initialState 0 ''L'' ''default-list'' ''Late'' (Some high) (Some 0) (Some msPerDay))"

text \<open>
  The demo tree with the second subtask of low priority and the first
  activity done. A store with one task from Saturday noon to Monday noon, and
  one with a task that is due half an hour less than eight times 24 hours
  after Saturday noon.
\<close>

definition todayStore :: TaskStore where
  "todayStore =
     fst (updateActivity (fst (updateSubtask demoStore 1 ''S2'' [U_priority low]))
            2 ''A1'' [A_status done'])"

definition clockChangeStore :: TaskStore where
  "clockChangeStore =
     fst (addTask initialState saturdayNoon ''N'' ''default-list'' ''Noon'' (Some high)
            (Some saturdayNoon) (Some mondayNoon))"

definition eightDayStore :: TaskStore where
  "eightDayStore =
     fst (addTask initialState saturdayNoon ''E'' ''default-list'' ''Eight'' (Some high)
            (Some saturdayNoon) (Some (saturdayNoon + 8 * msPerDay - msPerHour div 2)))"

text \<open>
  The demo tree with its first subtask done: \<open>S2\<close> is then free to start
  under the serial task.
\<close>

definition serialDoneStore :: TaskStore where
  "serialDoneStore = fst (updateSubtask serialStore 3 ''S1'' [U_status done'])"

text \<open>The serial tree with the first activity of \<open>S1\<close> done: \<open>A2\<close> is then free to start.\<close>

definition activityDoneStore :: TaskStore where
  "activityDoneStore = fst (updateActivity serialStore 3 ''A1'' [A_status done'])"

text \<open>
  The order values of a sibling set are dense when, sorted, they are
  \<open>0, 1, \<dots>, n - 1\<close>: a permutation of the indices without gap or duplicate.
  A store is dense when the tasks of every list, the subtasks of every task
  and the activities of every subtask are.
\<close>

definition dense :: "nat list \<Rightarrow> bool" where
  "dense os = (sort os = [0..<length os])"

definition denseSubtask :: "Subtask \<Rightarrow> bool" where
  "denseSubtask st = dense (map order (activities st))"

definition denseTask :: "Task \<Rightarrow> bool" where
  "denseTask t = (dense (map order (subtasks t)) \<and> list_all denseSubtask (subtasks t))"

definition denseList :: "TaskList \<Rightarrow> bool" where
  "denseList l = (dense (map order (tasks l)) \<and> list_all denseTask (tasks l))"

definition denseStore :: "TaskStore \<Rightarrow> bool" where
  "denseStore s = list_all denseList (taskLists s)"

text \<open>
  An id list that is complete for a reorder operation: it has no duplicate
  and holds exactly the ids of the children of the container that the
  operation resolves (nothing is required when it resolves none).
\<close>

definition permutesIds :: "string list \<Rightarrow> 'a Entity_scheme list \<Rightarrow> bool" where
  "permutesIds ids xs = (distinct ids \<and> mset ids = mset (map id' xs))"

definition completeTaskOrder :: "TaskStore \<Rightarrow> string \<Rightarrow> string list \<Rightarrow> bool" where
  "completeTaskOrder s listId' taskIds =
     (case findIndexById listId' (taskLists s) of
        None \<Rightarrow> True
      | Some li \<Rightarrow> permutesIds taskIds (tasks (listAt s li)))"

definition completeSubtaskOrder :: "TaskStore \<Rightarrow> string \<Rightarrow> string list \<Rightarrow> bool" where
  "completeSubtaskOrder s taskId subtaskIds =
     (case findItemInDraft s taskId of
        Some (FoundTask li ti) \<Rightarrow> permutesIds subtaskIds (subtasks (taskAt s li ti))
      | _ \<Rightarrow> True)"

definition completeActivityOrder :: "TaskStore \<Rightarrow> string \<Rightarrow> string list \<Rightarrow> bool" where
  "completeActivityOrder s subtaskId activityIds =
     (case findItemInDraft s subtaskId of
        Some (FoundSubtask li ti si) \<Rightarrow> permutesIds activityIds (activities (subtaskAt s li ti si))
      | _ \<Rightarrow> True)"

text \<open>The initial store with two tasks added to its list.\<close>

definition twoTaskStore :: TaskStore where
  "twoTaskStore =
     fst (addTask (fst (addTask initialState 0 ''a'' ''default-list'' ''first'' None None None))
            0 ''b'' ''default-list'' ''second'' None None None)"

section \<open>Properties of the locator\<close>

lemma nth_Cons_diff: "Suc k \<le> n \<Longrightarrow> (x # xs) ! (n - k) = xs ! (n - Suc k)"
  by (simp add: nth_Cons')

lemma findInDraftActivities_Some:
  "findInDraftActivities i li ti si k as = Some r \<Longrightarrow>
   \<exists>ai. r = FoundActivity li ti si ai \<and> k \<le> ai \<and> ai - k < length as \<and> id' (as ! (ai - k)) = i"
proof (induction as arbitrary: k)
  case Nil
  then show ?case by simp
next
  case (Cons a as)
  then show ?case
    by (fastforce simp: nth_Cons_diff split: if_splits)
qed

lemma findInDraftSubtasks_Some:
  "findInDraftSubtasks i li ti k sts = Some r \<Longrightarrow>
   (\<exists>si. r = FoundSubtask li ti si \<and> k \<le> si \<and> si - k < length sts \<and> id' (sts ! (si - k)) = i) \<or>
   (\<exists>si ai. r = FoundActivity li ti si ai \<and> k \<le> si \<and> si - k < length sts \<and>
        ai < length (activities (sts ! (si - k))) \<and> id' (activities (sts ! (si - k)) ! ai) = i)"
proof (induction sts arbitrary: k)
  case Nil
  then show ?case by simp
next
  case (Cons st sts)
  show ?case
  proof (cases "id' st = i")
    case True
    with Cons.prems show ?thesis by auto
  next
    case False
    show ?thesis
    proof (cases "findInDraftActivities i li ti k 0 (activities st)")
      case (Some r')
      with False Cons.prems findInDraftActivities_Some[of i li ti k 0 "activities st" r]
      show ?thesis by auto
    next
      case None
      with False Cons.prems have "findInDraftSubtasks i li ti (Suc k) sts = Some r" by simp
      from Cons.IH[OF this] show ?thesis
        by (fastforce simp: nth_Cons_diff)
    qed
  qed
qed

lemma findInDraftTasks_Some:
  "findInDraftTasks i li k ts = Some r \<Longrightarrow>
   (\<exists>ti. r = FoundTask li ti \<and> k \<le> ti \<and> ti - k < length ts \<and> id' (ts ! (ti - k)) = i) \<or>
   (\<exists>ti si. r = FoundSubtask li ti si \<and> k \<le> ti \<and> ti - k < length ts \<and>
        si < length (subtasks (ts ! (ti - k))) \<and> id' (subtasks (ts ! (ti - k)) ! si) = i) \<or>
   (\<exists>ti si ai. r = FoundActivity li ti si ai \<and> k \<le> ti \<and> ti - k < length ts \<and>
        si < length (subtasks (ts ! (ti - k))) \<and>
        ai < length (activities (subtasks (ts ! (ti - k)) ! si)) \<and>
        id' (activities (subtasks (ts ! (ti - k)) ! si) ! ai) = i)"
proof (induction ts arbitrary: k)
  case Nil
  then show ?case by simp
next
  case (Cons t ts)
  show ?case
  proof (cases "id' t = i")
    case True
    with Cons.prems show ?thesis by auto
  next
    case False
    show ?thesis
    proof (cases "findInDraftSubtasks i li k 0 (subtasks t)")
      case (Some r')
      with False Cons.prems findInDraftSubtasks_Some[of i li k 0 "subtasks t" r]
      show ?thesis by auto
    next
      case None
      with False Cons.prems have "findInDraftTasks i li (Suc k) ts = Some r" by simp
      from Cons.IH[OF this] show ?thesis
        by (fastforce simp: nth_Cons_diff)
    qed
  qed
qed

lemma findInDraftLists_Some:
  "findInDraftLists i k ls = Some r \<Longrightarrow>
   (\<exists>li. r = FoundTaskList li \<and> k \<le> li \<and> li - k < length ls \<and> id' (ls ! (li - k)) = i) \<or>
   (\<exists>li ti. r = FoundTask li ti \<and> k \<le> li \<and> li - k < length ls \<and>
        ti < length (tasks (ls ! (li - k))) \<and> id' (tasks (ls ! (li - k)) ! ti) = i) \<or>
   (\<exists>li ti si. r = FoundSubtask li ti si \<and> k \<le> li \<and> li - k < length ls \<and>
        ti < length (tasks (ls ! (li - k))) \<and>
        si < length (subtasks (tasks (ls ! (li - k)) ! ti)) \<and>
        id' (subtasks (tasks (ls ! (li - k)) ! ti) ! si) = i) \<or>
   (\<exists>li ti si ai. r = FoundActivity li ti si ai \<and> k \<le> li \<and> li - k < length ls \<and>
        ti < length (tasks (ls ! (li - k))) \<and>
        si < length (subtasks (tasks (ls ! (li - k)) ! ti)) \<and>
        ai < length (activities (subtasks (tasks (ls ! (li - k)) ! ti) ! si)) \<and>
        id' (activities (subtasks (tasks (ls ! (li - k)) ! ti) ! si) ! ai) = i)"
proof (induction ls arbitrary: k)
  case Nil
  then show ?case by simp
next
  case (Cons l ls)
  show ?case
  proof (cases "id' l = i")
    case True
    with Cons.prems show ?thesis by auto
  next
    case False
    show ?thesis
    proof (cases "findInDraftTasks i k 0 (tasks l)")
      case (Some r')
      with False Cons.prems findInDraftTasks_Some[of i k 0 "tasks l" r]
      show ?thesis by auto
    next
      case None
      with False Cons.prems have "findInDraftLists i (Suc k) ls = Some r" by simp
      from Cons.IH[OF this] show ?thesis
        by (fastforce simp: nth_Cons_diff)
    qed
  qed
qed

lemma findItemInDraft_valid:
  "findItemInDraft s i = Some r \<Longrightarrow> validPos s r \<and> idAt s r = i"
  unfolding findItemInDraft_def
  by (drule findInDraftLists_Some)
     (auto simp: listAt_def taskAt_def subtaskAt_def activityAt_def)

text \<open>The locator reads nothing but the ids.\<close>

lemma findInDraftActivities_ids:
  "map id' as = map id' bs \<Longrightarrow>
   findInDraftActivities i li ti si k as = findInDraftActivities i li ti si k bs"
proof (induction as arbitrary: bs k)
  case Nil
  then show ?case by simp
next
  case (Cons a as)
  then obtain b bs' where "bs = b # bs'" by (cases bs) auto
  with Cons show ?case by auto
qed

lemma findInDraftSubtasks_ids:
  "map idsOfSubtask sts = map idsOfSubtask sts' \<Longrightarrow>
   findInDraftSubtasks i li ti k sts = findInDraftSubtasks i li ti k sts'"
proof (induction sts arbitrary: sts' k)
  case Nil
  then show ?case by simp
next
  case (Cons a as)
  then obtain b bs' where b: "sts' = b # bs'" by (cases sts') auto
  with Cons.prems have "idsOfSubtask a = idsOfSubtask b" and tl: "map idsOfSubtask as = map idsOfSubtask bs'"
    by simp_all
  then have "id' a = id' b" "map id' (activities a) = map id' (activities b)"
    by (simp_all add: idsOfSubtask_def)
  with tl Cons.IH[of bs'] b findInDraftActivities_ids[of "activities a" "activities b"]
  show ?case by (simp split: option.splits)
qed

lemma findInDraftTasks_ids:
  "map idsOfTask ts = map idsOfTask ts' \<Longrightarrow>
   findInDraftTasks i li k ts = findInDraftTasks i li k ts'"
proof (induction ts arbitrary: ts' k)
  case Nil
  then show ?case by simp
next
  case (Cons a as)
  then obtain b bs' where b: "ts' = b # bs'" by (cases ts') auto
  with Cons.prems have "idsOfTask a = idsOfTask b" and tl: "map idsOfTask as = map idsOfTask bs'"
    by simp_all
  then have "id' a = id' b" "map idsOfSubtask (subtasks a) = map idsOfSubtask (subtasks b)"
    by (simp_all add: idsOfTask_def)
  with tl Cons.IH[of bs'] b findInDraftSubtasks_ids[of "subtasks a" "subtasks b"]
  show ?case by (simp split: option.splits)
qed

lemma findInDraftLists_ids:
  "map idsOfList ls = map idsOfList ls' \<Longrightarrow>
   findInDraftLists i k ls = findInDraftLists i k ls'"
proof (induction ls arbitrary: ls' k)
  case Nil
  then show ?case by simp
next
  case (Cons a as)
  then obtain b bs' where b: "ls' = b # bs'" by (cases ls') auto
  with Cons.prems have "idsOfList a = idsOfList b" and tl: "map idsOfList as = map idsOfList bs'"
    by simp_all
  then have "id' a = id' b" "map idsOfTask (tasks a) = map idsOfTask (tasks b)"
    by (simp_all add: idsOfList_def)
  with tl Cons.IH[of bs'] b findInDraftTasks_ids[of "tasks a" "tasks b"]
  show ?case by (simp split: option.splits)
qed

lemma findItemInDraft_ids:
  "idsOfStore s' = idsOfStore s \<Longrightarrow> findItemInDraft s' i = findItemInDraft s i"
  unfolding findItemInDraft_def idsOfStore_def by (rule findInDraftLists_ids)

lemma map_update_same: "f y = f (xs ! i) \<Longrightarrow> map f (xs[i := y]) = map f xs"
  by (cases "i < length xs") (simp_all add: map_update list_update_same_conv list_update_beyond)

lemma idsOfStore_modifyList:
  "idsOfList (f (taskLists s ! li)) = idsOfList (taskLists s ! li) \<Longrightarrow>
   idsOfStore (modifyList li f s) = idsOfStore s"
  by (simp add: idsOfStore_def modifyList_def map_update_same)

lemma idsOfStore_modifyTask:
  "idsOfTask (f (taskAt s li ti)) = idsOfTask (taskAt s li ti) \<Longrightarrow>
   idsOfStore (modifyTask li ti f s) = idsOfStore s"
  unfolding modifyTask_def
  by (rule idsOfStore_modifyList) (simp add: idsOfList_def taskAt_def listAt_def map_update_same)

lemma idsOfStore_modifySubtask:
  "idsOfSubtask (f (subtaskAt s li ti si)) = idsOfSubtask (subtaskAt s li ti si) \<Longrightarrow>
   idsOfStore (modifySubtask li ti si f s) = idsOfStore s"
  unfolding modifySubtask_def
  by (rule idsOfStore_modifyTask) (simp add: idsOfTask_def subtaskAt_def map_update_same)

lemma idsOfStore_modifyActivity:
  "id' (f (activityAt s li ti si ai)) = id' (activityAt s li ti si ai) \<Longrightarrow>
   idsOfStore (modifyActivity li ti si ai f s) = idsOfStore s"
  unfolding modifyActivity_def
  by (rule idsOfStore_modifySubtask) (simp add: idsOfSubtask_def activityAt_def map_update_same)

lemma taskAt_modifyTask:
  "validPos s (FoundTask li ti) \<Longrightarrow> taskAt (modifyTask li ti f s) li ti = f (taskAt s li ti)"
  by (simp add: taskAt_def listAt_def modifyTask_def modifyList_def)

lemma subtaskAt_modifySubtask:
  "validPos s (FoundSubtask li ti si) \<Longrightarrow>
   subtaskAt (modifySubtask li ti si f s) li ti si = f (subtaskAt s li ti si)"
  by (simp add: subtaskAt_def modifySubtask_def taskAt_modifyTask)

lemma activityAt_modifyActivity:
  "validPos s (FoundActivity li ti si ai) \<Longrightarrow>
   activityAt (modifyActivity li ti si ai f s) li ti si ai = f (activityAt s li ti si ai)"
  by (simp add: activityAt_def modifyActivity_def subtaskAt_modifySubtask)

section \<open>Properties of updateTask\<close>

lemma fold_invariant:
  "P s \<Longrightarrow> (\<And>x s. P s \<Longrightarrow> P (f x s)) \<Longrightarrow> P (fold f xs s)"
  by (induction xs arbitrary: s) auto

lemma addHistoryEntry_only_history:
  "\<exists>h. addHistoryEntry item ts c = item\<lparr>descriptionHistory := h\<rparr>"
proof (cases "trim c = []")
  case True
  then have "addHistoryEntry item ts c = item\<lparr>descriptionHistory := descriptionHistory item\<rparr>"
    by (simp add: addHistoryEntry_def)
  then show ?thesis by blast
next
  case False
  then show ?thesis by (simp add: addHistoryEntry_def Let_def) blast
qed

lemma editHistory_only_history:
  "\<exists>h c'. editHistory d (item, c) = (item\<lparr>descriptionHistory := h\<rparr>, c')"
proof (cases "editHistory d (item, c) = (item, c)")
  case True
  then show ?thesis
    by (intro exI[of _ "descriptionHistory item"] exI[of _ c]) simp
next
  case False
  then obtain x where d: "d = Some x" "x \<noteq> orEmpty (description item)"
    by (auto simp: editHistory_def Let_def split: option.splits if_splits)
  obtain h where "addHistoryEntry item (lastEditedDate item)
      (''[EDIT] '' @ (if orEmpty (description item) = [] then ''(empty)'' else orEmpty (description item)))
      = item\<lparr>descriptionHistory := h\<rparr>"
    using addHistoryEntry_only_history by blast
  with d show ?thesis by (auto simp: editHistory_def Let_def)
qed

lemma applyTaskUpdate_frame: "taskFrame t (fst tc) \<Longrightarrow> taskFrame t (fst (applyTaskUpdate u tc))"
  by (cases tc; cases u) (auto simp: taskFrame_def Let_def)

lemma applyTaskUpdate_dates:
  "creationDate (fst tc) \<le> expectedCompletionDate (fst tc) \<Longrightarrow>
   creationDate (fst (applyTaskUpdate u tc)) \<le> expectedCompletionDate (fst (applyTaskUpdate u tc))"
  by (cases tc; cases u) (auto simp: Let_def)

lemma updateTaskItem_frame:
  "id' (updateTaskItem now us t) = id' t \<and> order (updateTaskItem now us t) = order t \<and>
   listId (updateTaskItem now us t) = listId t"
proof -
  obtain h c where e: "editHistory (updatesDescription us) (t, False) = (t\<lparr>descriptionHistory := h\<rparr>, c)"
    using editHistory_only_history by blast
  obtain t1 ch where f: "fold applyTaskUpdate us (t\<lparr>descriptionHistory := h\<rparr>, c) = (t1, ch)"
    by (cases "fold applyTaskUpdate us (t\<lparr>descriptionHistory := h\<rparr>, c)")
  have "taskFrame t (fst (fold applyTaskUpdate us (t\<lparr>descriptionHistory := h\<rparr>, c)))"
    by (rule fold_invariant) (simp_all add: applyTaskUpdate_frame, simp add: taskFrame_def)
  with f show ?thesis
    by (simp add: updateTaskItem_def e taskFrame_def Let_def)
qed

lemma updateTaskItem_dates:
  assumes "creationDate t \<le> expectedCompletionDate t"
  shows "creationDate (updateTaskItem now us t) \<le> expectedCompletionDate (updateTaskItem now us t)"
proof -
  obtain h c where e: "editHistory (updatesDescription us) (t, False) = (t\<lparr>descriptionHistory := h\<rparr>, c)"
    using editHistory_only_history by blast
  obtain t1 ch where f: "fold applyTaskUpdate us (t\<lparr>descriptionHistory := h\<rparr>, c) = (t1, ch)"
    by (cases "fold applyTaskUpdate us (t\<lparr>descriptionHistory := h\<rparr>, c)")
  have "creationDate (fst (fold applyTaskUpdate us (t\<lparr>descriptionHistory := h\<rparr>, c)))
      \<le> expectedCompletionDate (fst (fold applyTaskUpdate us (t\<lparr>descriptionHistory := h\<rparr>, c)))"
    by (rule fold_invariant) (simp_all add: assms applyTaskUpdate_dates)
  with f show ?thesis
    by (simp add: updateTaskItem_def e Let_def)
qed


lemma clampIntoParent_id [simp]: "id' (clampIntoParent now pc pe c) = id' c"
  by (simp add: clampIntoParent_def Let_def)

lemma clampIntoParent_order [simp]: "order (clampIntoParent now pc pe c) = order c"
  by (simp add: clampIntoParent_def Let_def)

lemma clampIntoParent_more [simp]: "Item.more (clampIntoParent now pc pe c) = Item.more c"
  by (simp add: clampIntoParent_def Let_def)

lemma clampIntoParent_activities [simp]: "activities (clampIntoParent now pc pe st) = activities st"
  by (simp add: clampIntoParent_def Let_def)

lemma clampIntoParent_dates:
  "creationDate (clampIntoParent now pc pe c) \<le> expectedCompletionDate (clampIntoParent now pc pe c)"
  by (simp add: clampIntoParent_def Let_def)

lemma clampIntoParent_creation:
  "pc \<le> creationDate (clampIntoParent now pc pe c)"
  by (simp add: clampIntoParent_def Let_def)

lemma idsOfSubtask_cascadeSubtask [simp]: "idsOfSubtask (cascadeSubtask now pc pe st) = idsOfSubtask st"
  by (simp add: idsOfSubtask_def cascadeSubtask_def cascadeActivities_def o_def)

lemma idsOfSubtask_cascadeActivities [simp]: "idsOfSubtask (cascadeActivities now st) = idsOfSubtask st"
  by (simp add: idsOfSubtask_def cascadeActivities_def o_def)

lemma updateTaskItem_subtasks:
  "subtasks (updateTaskItem now us t) =
     (if updatesBounds us
      then map (cascadeSubtask now (creationDate (updateTaskItem now us t))
                  (expectedCompletionDate (updateTaskItem now us t))) (subtasks t)
      else subtasks t)"
proof -
  obtain h c where e: "editHistory (updatesDescription us) (t, False) = (t\<lparr>descriptionHistory := h\<rparr>, c)"
    using editHistory_only_history by blast
  obtain t1 ch where f: "fold applyTaskUpdate us (t\<lparr>descriptionHistory := h\<rparr>, c) = (t1, ch)"
    by (cases "fold applyTaskUpdate us (t\<lparr>descriptionHistory := h\<rparr>, c)")
  have "taskFrame t (fst (fold applyTaskUpdate us (t\<lparr>descriptionHistory := h\<rparr>, c)))"
    by (rule fold_invariant) (simp_all add: applyTaskUpdate_frame, simp add: taskFrame_def)
  with f show ?thesis
    by (simp add: updateTaskItem_def e taskFrame_def Let_def)
qed

lemma idsOfTask_updateTaskItem [simp]: "idsOfTask (updateTaskItem now us t) = idsOfTask t"
  by (simp add: idsOfTask_def updateTaskItem_frame updateTaskItem_subtasks o_def)

lemma updateTask_found:
  "findItemInDraft s i = Some (FoundTask li ti) \<Longrightarrow>
   updateTask s now i us = (modifyTask li ti (updateTaskItem now us) s, Inr True)"
  by (simp add: updateTask_def)

lemma updateTask_ids [simp]: "idsOfStore (fst (updateTask s now i us)) = idsOfStore s"
  by (auto simp: updateTask_def idsOfStore_modifyTask split: option.splits Found.splits)

section \<open>Properties of updateSubtask\<close>

lemma nth_list_update_if:
  "(xs[i := x]) ! j = (if i = j \<and> i < length xs then x else xs ! j)"
  by (cases "i < length xs") (simp_all add: nth_list_update list_update_beyond)

lemma applySubtaskUpdate_frame:
  "subtaskFrame st (fst sc) \<Longrightarrow> subtaskFrame st (fst (applySubtaskUpdate t u sc))"
  by (cases sc; cases u) (auto simp: subtaskFrame_def Let_def)

lemma applySubtaskUpdate_dates:
  "creationDate (fst sc) \<le> expectedCompletionDate (fst sc) \<Longrightarrow>
   creationDate (fst (applySubtaskUpdate t u sc)) \<le> expectedCompletionDate (fst (applySubtaskUpdate t u sc))"
  by (cases sc; cases u) (auto simp: Let_def)

lemma updateSubtaskItem_frame:
  "id' (fst (updateSubtaskItem now t us st)) = id' st \<and>
   order (fst (updateSubtaskItem now t us st)) = order st \<and>
   map id' (activities (fst (updateSubtaskItem now t us st))) = map id' (activities st)"
proof -
  obtain h c where e: "editHistory (updatesDescription us) (st, False) = (st\<lparr>descriptionHistory := h\<rparr>, c)"
    using editHistory_only_history by blast
  obtain st1 ch where f: "fold (applySubtaskUpdate t) us (st\<lparr>descriptionHistory := h\<rparr>, c) = (st1, ch)"
    by (cases "fold (applySubtaskUpdate t) us (st\<lparr>descriptionHistory := h\<rparr>, c)")
  have "subtaskFrame st (fst (fold (applySubtaskUpdate t) us (st\<lparr>descriptionHistory := h\<rparr>, c)))"
    by (rule fold_invariant) (simp_all add: applySubtaskUpdate_frame, simp add: subtaskFrame_def)
  with f show ?thesis
    by (simp add: updateSubtaskItem_def e subtaskFrame_def Let_def cascadeActivities_def o_def)
qed

lemma updateSubtaskItem_dates:
  assumes "creationDate st \<le> expectedCompletionDate st"
  shows "creationDate (fst (updateSubtaskItem now t us st))
           \<le> expectedCompletionDate (fst (updateSubtaskItem now t us st))"
proof -
  obtain h c where e: "editHistory (updatesDescription us) (st, False) = (st\<lparr>descriptionHistory := h\<rparr>, c)"
    using editHistory_only_history by blast
  obtain st1 ch where f: "fold (applySubtaskUpdate t) us (st\<lparr>descriptionHistory := h\<rparr>, c) = (st1, ch)"
    by (cases "fold (applySubtaskUpdate t) us (st\<lparr>descriptionHistory := h\<rparr>, c)")
  have "creationDate (fst (fold (applySubtaskUpdate t) us (st\<lparr>descriptionHistory := h\<rparr>, c)))
      \<le> expectedCompletionDate (fst (fold (applySubtaskUpdate t) us (st\<lparr>descriptionHistory := h\<rparr>, c)))"
    by (rule fold_invariant) (simp_all add: assms applySubtaskUpdate_dates)
  with f show ?thesis
    by (simp add: updateSubtaskItem_def e Let_def cascadeActivities_def)
qed

lemma updateSubtaskInTask_subtask:
  "si < length (subtasks t) \<Longrightarrow>
   subtasks (updateSubtaskInTask now us si t) ! si = fst (updateSubtaskItem now t us (subtasks t ! si))"
  by (simp add: updateSubtaskInTask_def Let_def split: prod.splits)

lemma idsOfTask_updateSubtaskInTask [simp]:
  "idsOfTask (updateSubtaskInTask now us si t) = idsOfTask t"
proof -
  obtain st' ch where u: "updateSubtaskItem now t us (subtasks t ! si) = (st', ch)"
    by (cases "updateSubtaskItem now t us (subtasks t ! si)")
  with updateSubtaskItem_frame[of now t us "subtasks t ! si"]
  have "idsOfSubtask st' = idsOfSubtask (subtasks t ! si)"
    by (simp add: idsOfSubtask_def)
  with u show ?thesis
    by (simp add: updateSubtaskInTask_def idsOfTask_def map_update_same Let_def)
qed

lemma updateSubtask_found:
  "findItemInDraft s i = Some (FoundSubtask li ti si) \<Longrightarrow>
   updateSubtask s now i us = (modifyTask li ti (updateSubtaskInTask now us si) s, Inr True)"
  by (simp add: updateSubtask_def)

lemma updateSubtask_ids [simp]: "idsOfStore (fst (updateSubtask s now i us)) = idsOfStore s"
  by (auto simp: updateSubtask_def idsOfStore_modifyTask split: option.splits Found.splits)

section \<open>Reading a position after a write\<close>

lemma listAt_modifyList:
  "listAt (modifyList li' f s) li =
     (if li' = li \<and> li < length (taskLists s) then f (listAt s li) else listAt s li)"
  by (simp add: listAt_def modifyList_def nth_list_update_if)

lemma taskAt_modifyTask_if:
  "taskAt (modifyTask li' ti' f s) li ti =
     (if li' = li \<and> ti' = ti \<and> validPos s (FoundTask li ti) then f (taskAt s li ti)
      else taskAt s li ti)"
  by (simp add: taskAt_def modifyTask_def listAt_modifyList nth_list_update_if)

lemma subtaskAt_modifySubtask_if:
  "subtaskAt (modifySubtask li' ti' si' f s) li ti si =
     (if li' = li \<and> ti' = ti \<and> si' = si \<and> validPos s (FoundSubtask li ti si)
      then f (subtaskAt s li ti si) else subtaskAt s li ti si)"
  by (simp add: subtaskAt_def modifySubtask_def taskAt_modifyTask_if nth_list_update_if)

lemma activityAt_modifyActivity_if:
  "activityAt (modifyActivity li' ti' si' ai' f s) li ti si ai =
     (if li' = li \<and> ti' = ti \<and> si' = si \<and> ai' = ai \<and> validPos s (FoundActivity li ti si ai)
      then f (activityAt s li ti si ai) else activityAt s li ti si ai)"
  by (simp add: activityAt_def modifyActivity_def subtaskAt_modifySubtask_if nth_list_update_if)

lemma length_taskLists_modifyList [simp]:
  "length (taskLists (modifyList li f s)) = length (taskLists s)"
  by (simp add: modifyList_def)

lemma datesOkAt_touch [simp]: "datesOkAt (touch now p s) r = datesOkAt s r"
proof (cases p)
  case (FoundTaskList li)
  then show ?thesis by simp
next
  case (FoundTask li ti)
  then show ?thesis
    by (cases r) (simp_all add: activityAt_def subtaskAt_def taskAt_modifyTask_if)
next
  case (FoundSubtask li ti si)
  then show ?thesis
    by (cases r)
       (simp_all add: activityAt_def subtaskAt_modifySubtask_if,
        simp_all add: modifySubtask_def taskAt_modifyTask_if)
next
  case (FoundActivity li ti si ai)
  then show ?thesis
    by (cases r)
       (simp_all add: activityAt_modifyActivity_if,
        simp_all add: modifyActivity_def subtaskAt_modifySubtask_if,
        simp_all add: modifySubtask_def taskAt_modifyTask_if)
qed

section \<open>Properties of updateActivity\<close>

lemma activityKept_editHistory:
  "activityKept a ac \<Longrightarrow> activityKept a (editHistory d ac)"
  by (cases ac) (auto simp: activityKept_def editHistory_def addHistoryEntry_def Let_def split: option.splits)

lemma activityKept_scheduleHistory:
  "activityKept a ac \<Longrightarrow> activityKept a (scheduleHistory now us ac)"
  by (cases ac) (auto simp: activityKept_def scheduleHistory_def addHistoryEntry_def Let_def split: option.splits)

lemma activityKept_reminderHistory:
  "activityKept a ac \<Longrightarrow> activityKept a (reminderHistory now us ac)"
  by (cases ac) (auto simp: activityKept_def reminderHistory_def addHistoryEntry_def Let_def split: option.splits)

lemma activityKept_dueHistory:
  "activityKept a ac \<Longrightarrow> activityKept a (fst (dueHistory now us ac))"
  by (cases ac) (auto simp: activityKept_def dueHistory_def addHistoryEntry_def Let_def split: option.splits)

lemma activityKept_skipHistory:
  "activityKept a ac \<Longrightarrow> activityKept a (skipHistory now us ac)"
  by (cases ac) (auto simp: activityKept_def skipHistory_def addHistoryEntry_def Let_def split: option.splits)

lemma activityKept_applyActivityUpdate:
  "activityKept a ac \<Longrightarrow> activityKept a (applyActivityUpdate st u ac)"
  by (cases ac; cases u) (auto simp: activityKept_def Let_def)

lemma activityKept_updateActivityItem:
  "activityKept a (updateActivityItem now st us a)"
proof -
  let ?ac3 = "reminderHistory now us (scheduleHistory now us
                (editHistory (activityUpdatesDescription us) (a, False)))"
  obtain ac4 us' where d: "dueHistory now us ?ac3 = (ac4, us')"
    by (cases "dueHistory now us ?ac3")
  obtain a1 ch where f: "fold (applyActivityUpdate st) us' (skipHistory now us' ac4) = (a1, ch)"
    by (cases "fold (applyActivityUpdate st) us' (skipHistory now us' ac4)")
  have "activityKept a (a, False)" by (simp add: activityKept_def)
  then have "activityKept a ?ac3"
    by (intro activityKept_reminderHistory activityKept_scheduleHistory activityKept_editHistory)
  then have "activityKept a (fst (dueHistory now us ?ac3))" by (rule activityKept_dueHistory)
  with d have "activityKept a (skipHistory now us' ac4)"
    by (simp add: activityKept_skipHistory)
  then have "activityKept a (fold (applyActivityUpdate st) us' (skipHistory now us' ac4))"
    by (rule fold_invariant) (rule activityKept_applyActivityUpdate)
  with f d show ?thesis
    by (simp add: updateActivityItem_def Let_def activityKept_def)
qed

lemma updateActivity_ids [simp]: "idsOfStore (fst (updateActivity s now i us)) = idsOfStore s"
proof (cases "findItemInDraft s i")
  case None
  then show ?thesis by (simp add: updateActivity_def)
next
  case (Some r)
  show ?thesis
  proof (cases r)
    case (FoundActivity li ti si ai)
    show ?thesis
    proof (cases "findItemInDraft s (Subtask.parentId (subtaskAt s li ti si))")
      case None
      with Some FoundActivity show ?thesis by (simp add: updateActivity_def)
    next
      case (Some p)
      obtain a' ch where u: "updateActivityItem now (subtaskAt s li ti si) us (activityAt s li ti si ai) = (a', ch)"
        by (cases "updateActivityItem now (subtaskAt s li ti si) us (activityAt s li ti si ai)")
      with activityKept_updateActivityItem[of "activityAt s li ti si ai" now "subtaskAt s li ti si" us]
      have ida: "id' a' = id' (activityAt s li ti si ai)" by (simp add: activityKept_def)
      let ?s1 = "modifyActivity li ti si ai (\<lambda>a. a') s"
      have s1: "idsOfStore ?s1 = idsOfStore s" by (rule idsOfStore_modifyActivity) (rule ida)
      have s2: "idsOfStore (modifySubtask li ti si (\<lambda>st. st\<lparr>lastEditedDate := now\<rparr>) ?s1) = idsOfStore s"
        using s1 by (simp add: idsOfStore_modifySubtask idsOfSubtask_def)
      have "idsOfStore (touch now p (modifySubtask li ti si (\<lambda>st. st\<lparr>lastEditedDate := now\<rparr>) ?s1))
              = idsOfStore s"
        using s2
        by (cases p) (simp_all add: idsOfStore_modifyTask idsOfStore_modifySubtask idsOfStore_modifyActivity
                        idsOfTask_def idsOfSubtask_def)
      with s1 u Some \<open>findItemInDraft s i = Some r\<close> FoundActivity show ?thesis
        by (simp add: updateActivity_def Let_def)
    qed
  qed (use Some in \<open>simp_all add: updateActivity_def\<close>)
qed

section \<open>Completeness of the locator, and updates that change nothing\<close>

text \<open>The locator finds every id of the tree.\<close>

lemma findInDraftActivities_None:
  "(findInDraftActivities i li ti si k as = None) = (\<forall>a\<in>set as. id' a \<noteq> i)"
  by (induction as arbitrary: k) auto

lemma findInDraftSubtasks_None:
  "(findInDraftSubtasks i li ti k sts = None) =
     (\<forall>st\<in>set sts. id' st \<noteq> i \<and> (\<forall>a\<in>set (activities st). id' a \<noteq> i))"
proof (induction sts arbitrary: k)
  case Nil
  then show ?case by simp
next
  case (Cons st sts)
  show ?case
    using Cons.IH findInDraftActivities_None[of i li ti k 0 "activities st"]
    by (cases "findInDraftActivities i li ti k 0 (activities st)") auto
qed

lemma findInDraftTasks_None:
  "(findInDraftTasks i li k ts = None) =
     (\<forall>t\<in>set ts. id' t \<noteq> i \<and>
        (\<forall>st\<in>set (subtasks t). id' st \<noteq> i \<and> (\<forall>a\<in>set (activities st). id' a \<noteq> i)))"
proof (induction ts arbitrary: k)
  case Nil
  then show ?case by simp
next
  case (Cons t ts)
  show ?case
    using Cons.IH findInDraftSubtasks_None[of i li k 0 "subtasks t"]
    by (cases "findInDraftSubtasks i li k 0 (subtasks t)") auto
qed

lemma findInDraftLists_None:
  "(findInDraftLists i k ls = None) =
     (\<forall>l\<in>set ls. id' l \<noteq> i \<and>
        (\<forall>t\<in>set (tasks l). id' t \<noteq> i \<and>
          (\<forall>st\<in>set (subtasks t). id' st \<noteq> i \<and> (\<forall>a\<in>set (activities st). id' a \<noteq> i))))"
proof (induction ls arbitrary: k)
  case Nil
  then show ?case by simp
next
  case (Cons l ls)
  show ?case
    using Cons.IH findInDraftTasks_None[of i k 0 "tasks l"]
    by (cases "findInDraftTasks i k 0 (tasks l)") auto
qed

lemma findItemInDraft_task_id:
  assumes "validPos s (FoundTask li ti)"
  shows "findItemInDraft s (id' (taskAt s li ti)) \<noteq> None"
proof -
  from assms have "listAt s li \<in> set (taskLists s)" "taskAt s li ti \<in> set (tasks (listAt s li))"
    by (simp_all add: listAt_def taskAt_def)
  then show ?thesis
    unfolding findItemInDraft_def findInDraftLists_None by blast
qed

lemma parentLinks_subtask:
  assumes "parentLinks s" and "validPos s (FoundSubtask li ti si)"
  shows "Subtask.parentId (subtaskAt s li ti si) = id' (taskAt s li ti)"
  using assms
  by (simp add: parentLinks_def list_all_length subtaskAt_def taskAt_def listAt_def)

lemma modifyTask_same:
  "f (taskAt s li ti) = taskAt s li ti \<Longrightarrow> modifyTask li ti f s = s"
  by (simp add: modifyTask_def modifyList_def taskAt_def listAt_def)

lemma fold_applyTaskUpdate_same:
  "list_all (sameAsCurrent t) us \<Longrightarrow> fold applyTaskUpdate us (t, c) = (t, c)"
proof (induction us)
  case Nil
  then show ?case by simp
next
  case (Cons u us)
  then have "applyTaskUpdate u (t, c) = (t, c)" by (cases u) simp_all
  with Cons show ?case by simp
qed

lemma updatesDescription_same:
  "list_all (sameAsCurrent t) us \<Longrightarrow>
   updatesDescription us = None \<or> updatesDescription us = Some (orEmpty (description t))"
proof (induction us)
  case Nil
  then show ?case by simp
next
  case (Cons u us)
  then show ?case by (cases u) (auto simp: orEmpty_def split: option.splits)
qed

lemma updatesBounds_same:
  "list_all (sameAsCurrent t) us \<Longrightarrow> \<not> updatesBounds us"
proof (induction us)
  case Nil
  then show ?case by (simp add: updatesBounds_def)
next
  case (Cons u us)
  then show ?case by (cases u) (simp_all add: updatesBounds_def)
qed

section \<open>Dates, failures and frame of the update operations\<close>



text \<open>
  C9. When \<^verbatim>\<open>updateTask\<close> is called with only a \<^verbatim>\<open>creationDate\<close> that is
  strictly later than the task's current \<^verbatim>\<open>expectedCompletionDate\<close>, the
  resulting task has its creation date equal to the expected completion
  date, which is unchanged: the creation date is pulled back, the expected
  completion date is not pushed forward. The task is one whose dates are in
  order before the call; the id resolves to the same task afterwards.
\<close>

theorem updateTask_late_creationDate_is_clamped:
  assumes "findItemInDraft s taskId = Some (FoundTask li ti)"
    and "creationDate (taskAt s li ti) \<le> expectedCompletionDate (taskAt s li ti)"
    and "expectedCompletionDate (taskAt s li ti) < newDate"
  shows "findItemInDraft (fst (updateTask s now taskId [U_creationDate newDate])) taskId
           = Some (FoundTask li ti) \<and>
         creationDate (taskAt (fst (updateTask s now taskId [U_creationDate newDate])) li ti)
           = expectedCompletionDate (taskAt s li ti) \<and>
         expectedCompletionDate (taskAt (fst (updateTask s now taskId [U_creationDate newDate])) li ti)
           = expectedCompletionDate (taskAt s li ti)"
proof -
  let ?s' = "fst (updateTask s now taskId [U_creationDate newDate])"
  from assms(1) have v: "validPos s (FoundTask li ti)"
    using findItemInDraft_valid by blast
  have "findItemInDraft ?s' taskId = findItemInDraft s taskId"
    by (rule findItemInDraft_ids) simp
  moreover have "taskAt ?s' li ti = updateTaskItem now [U_creationDate newDate] (taskAt s li ti)"
    using assms(1) v by (simp add: updateTask_found taskAt_modifyTask)
  moreover from assms(2,3)
  have "creationDate (updateTaskItem now [U_creationDate newDate] (taskAt s li ti))
          = expectedCompletionDate (taskAt s li ti)"
       "expectedCompletionDate (updateTaskItem now [U_creationDate newDate] (taskAt s li ti))
          = expectedCompletionDate (taskAt s li ti)"
    by (simp_all add: updateTaskItem_def editHistory_def Let_def)
  ultimately show ?thesis using assms(1) by simp
qed

theorem updateTask_late_creationDate_is_clamped_witness:
  "findItemInDraft demoStore ''T'' = Some (FoundTask 0 0) \<and>
   creationDate (taskAt demoStore 0 0) \<le> expectedCompletionDate (taskAt demoStore 0 0) \<and>
   expectedCompletionDate (taskAt demoStore 0 0) < 20 \<and>
   expectedCompletionDate (taskAt demoStore 0 0) = 10 \<and>
   creationDate (taskAt (fst (updateTask demoStore 5 ''T'' [U_creationDate 20])) 0 0)
     = expectedCompletionDate (taskAt demoStore 0 0)"
proof -
  have h1: "findItemInDraft demoStore ''T'' = Some (FoundTask 0 0)" by code_simp
  have h2: "creationDate (taskAt demoStore 0 0) \<le> expectedCompletionDate (taskAt demoStore 0 0)"
    by code_simp
  have h3: "expectedCompletionDate (taskAt demoStore 0 0) < 20" by code_simp
  have h4: "expectedCompletionDate (taskAt demoStore 0 0) = 10" by code_simp
  from updateTask_late_creationDate_is_clamped [OF h1 h2 h3, of 5] h1 h2 h3 h4
  show ?thesis by blast
qed


text \<open>
  C8. For every id that does not resolve to an item of the expected kind, the
  update operation returns a failure string (it does not throw) and leaves
  the store unchanged; when the id resolves, it returns \<^verbatim>\<open>true\<close>. For
  \<^verbatim>\<open>updateActivity\<close> the store is one in which every subtask carries the id
  of its task as \<^verbatim>\<open>parentId\<close>: the operation looks the task up through that
  id, and in any store it returns \<^verbatim>\<open>true\<close> or, with the store unchanged, its
  second failure string.
\<close>

theorem update_not_found_or_true:
  "(\<not> resolvesToTask s i \<longrightarrow>
      updateTask s now i us = (s, Inl (''Task with ID '' @ i @ '' not found.''))) \<and>
   (resolvesToTask s i \<longrightarrow> snd (updateTask s now i us) = Inr True) \<and>
   (\<not> resolvesToSubtask s i \<longrightarrow>
      updateSubtask s now i us = (s, Inl (''Subtask with ID '' @ i @ '' not found.''))) \<and>
   (resolvesToSubtask s i \<longrightarrow> snd (updateSubtask s now i us) = Inr True) \<and>
   (\<not> resolvesToActivity s i \<longrightarrow>
      updateActivity s now i aus = (s, Inl (''Activity with ID '' @ i @ '' not found.''))) \<and>
   (resolvesToActivity s i \<and> parentLinks s \<longrightarrow> snd (updateActivity s now i aus) = Inr True) \<and>
   (resolvesToActivity s i \<longrightarrow>
      snd (updateActivity s now i aus) = Inr True \<or>
      updateActivity s now i aus = (s, Inl (''Activity context not found for ID '' @ i @ ''.'')))"
proof -
  have t: "\<not> resolvesToTask s i \<longrightarrow>
      updateTask s now i us = (s, Inl (''Task with ID '' @ i @ '' not found.''))"
    "resolvesToTask s i \<longrightarrow> snd (updateTask s now i us) = Inr True"
    by (auto simp: resolvesToTask_def updateTask_def split: option.splits Found.splits)
  have st: "\<not> resolvesToSubtask s i \<longrightarrow>
      updateSubtask s now i us = (s, Inl (''Subtask with ID '' @ i @ '' not found.''))"
    "resolvesToSubtask s i \<longrightarrow> snd (updateSubtask s now i us) = Inr True"
    by (auto simp: resolvesToSubtask_def updateSubtask_def split: option.splits Found.splits)
  have a1: "\<not> resolvesToActivity s i \<longrightarrow>
      updateActivity s now i aus = (s, Inl (''Activity with ID '' @ i @ '' not found.''))"
    by (auto simp: resolvesToActivity_def updateActivity_def split: option.splits Found.splits)
  have a2: "resolvesToActivity s i \<and> parentLinks s \<longrightarrow> snd (updateActivity s now i aus) = Inr True"
  proof
    assume h: "resolvesToActivity s i \<and> parentLinks s"
    then obtain li ti si ai where f: "findItemInDraft s i = Some (FoundActivity li ti si ai)"
      by (auto simp: resolvesToActivity_def split: option.splits Found.splits)
    then have v: "validPos s (FoundActivity li ti si ai)" using findItemInDraft_valid by blast
    with h have "Subtask.parentId (subtaskAt s li ti si) = id' (taskAt s li ti)"
      by (simp add: parentLinks_subtask)
    moreover from v have "findItemInDraft s (id' (taskAt s li ti)) \<noteq> None"
      by (simp add: findItemInDraft_task_id)
    ultimately obtain p where "findItemInDraft s (Subtask.parentId (subtaskAt s li ti si)) = Some p"
      by auto
    with f show "snd (updateActivity s now i aus) = Inr True"
      by (simp add: updateActivity_def Let_def split: prod.splits)
  qed
  have a3: "resolvesToActivity s i \<longrightarrow>
      snd (updateActivity s now i aus) = Inr True \<or>
      updateActivity s now i aus = (s, Inl (''Activity context not found for ID '' @ i @ ''.''))"
    by (auto simp: resolvesToActivity_def updateActivity_def Let_def
             split: option.splits Found.splits prod.splits)
  from t st a1 a2 a3 show ?thesis by blast
qed

theorem update_not_found_or_true_witness:
  "\<not> resolvesToTask demoStore ''A1'' \<and> \<not> resolvesToSubtask demoStore ''A1'' \<and>
   resolvesToActivity demoStore ''A1'' \<and> parentLinks demoStore \<and>
   resolvesToTask demoStore ''T'' \<and> resolvesToSubtask demoStore ''S2'' \<and>
   \<not> resolvesToActivity demoStore ''T'' \<and>
   updateTask demoStore 5 ''A1'' [U_name ''x''] = (demoStore, Inl ''Task with ID A1 not found.'') \<and>
   updateSubtask demoStore 5 ''A1'' [U_name ''x''] = (demoStore, Inl ''Subtask with ID A1 not found.'') \<and>
   updateActivity demoStore 5 ''T'' [A_name ''x''] = (demoStore, Inl ''Activity with ID T not found.'') \<and>
   snd (updateActivity demoStore 5 ''A1'' [A_name ''x'']) = Inr True \<and>
   snd (updateTask demoStore 5 ''T'' [U_name ''x'']) = Inr True \<and>
   snd (updateSubtask demoStore 5 ''S2'' [U_name ''x'']) = Inr True"
proof -
  have h1: "\<not> resolvesToTask demoStore ''A1''" by code_simp
  have h2: "\<not> resolvesToSubtask demoStore ''A1''" by code_simp
  have h3: "resolvesToActivity demoStore ''A1''" by code_simp
  have h4: "parentLinks demoStore" by code_simp
  have h5: "resolvesToTask demoStore ''T''" by code_simp
  have h6: "resolvesToSubtask demoStore ''S2''" by code_simp
  have h7: "\<not> resolvesToActivity demoStore ''T''" by code_simp
  from update_not_found_or_true [of demoStore "''A1''" 5 "[U_name ''x'']" "[A_name ''x'']"] h1 h2 h3 h4
  have a: "updateTask demoStore 5 ''A1'' [U_name ''x''] = (demoStore, Inl (''Task with ID '' @ ''A1'' @ '' not found.''))"
    "updateSubtask demoStore 5 ''A1'' [U_name ''x''] = (demoStore, Inl (''Subtask with ID '' @ ''A1'' @ '' not found.''))"
    "snd (updateActivity demoStore 5 ''A1'' [A_name ''x'']) = Inr True"
    by blast+
  from update_not_found_or_true [of demoStore "''T''" 5 "[U_name ''x'']" "[A_name ''x'']"] h5 h7
  have b: "snd (updateTask demoStore 5 ''T'' [U_name ''x'']) = Inr True"
    "updateActivity demoStore 5 ''T'' [A_name ''x''] = (demoStore, Inl (''Activity with ID '' @ ''T'' @ '' not found.''))"
    by blast+
  from update_not_found_or_true [of demoStore "''S2''" 5 "[U_name ''x'']" "[A_name ''x'']"] h6
  have c: "snd (updateSubtask demoStore 5 ''S2'' [U_name ''x'']) = Inr True"
    by blast
  from a b c h1 h2 h3 h4 h5 h6 h7 show ?thesis by simp
qed

text \<open>
  C10 as the specification states it: \<^verbatim>\<open>updateTask\<close> with only non-date,
  non-schedule, non-reminder fields whose values equal the task's current
  values leaves the store unchanged. \<^verbatim>\<open>dependencies\<close> is such a field. On
  the demo task, whose dependencies are \<^verbatim>\<open>[]\<close> and which was last edited at
  0, \<^verbatim>\<open>updateTask('T', {dependencies: []})\<close> at time 5 returns \<^verbatim>\<open>true\<close> and
  sets \<^verbatim>\<open>lastEditedDate\<close> to 5: the array is compared by identity.
\<close>

theorem updateTask_equal_dependencies_is_a_change:
  "dependencies (taskAt demoStore 0 0) = [] \<and>
   lastEditedDate (taskAt demoStore 0 0) = 0 \<and>
   snd (updateTask demoStore 5 ''T'' [U_dependencies []]) = Inr True \<and>
   dependencies (taskAt (fst (updateTask demoStore 5 ''T'' [U_dependencies []])) 0 0) = [] \<and>
   lastEditedDate (taskAt (fst (updateTask demoStore 5 ''T'' [U_dependencies []])) 0 0) = 5 \<and>
   fst (updateTask demoStore 5 ''T'' [U_dependencies []]) \<noteq> demoStore"
  by code_simp

text \<open>
  C10, amended. \<^verbatim>\<open>updateTask\<close> with a partial update that holds only
  primitive fields outside the date, schedule and reminder branches (name,
  description, status, priority, the two flags, autoRepeat), each with a
  value equal to the task's current value, returns \<^verbatim>\<open>true\<close> and leaves the
  whole store unchanged; in particular \<^verbatim>\<open>lastEditedDate\<close> is not refreshed.
\<close>

theorem updateTask_same_values_changes_nothing:
  assumes "findItemInDraft s i = Some (FoundTask li ti)"
    and "list_all (sameAsCurrent (taskAt s li ti)) us"
  shows "updateTask s now i us = (s, Inr True)"
proof -
  let ?t = "taskAt s li ti"
  from assms(2) have "editHistory (updatesDescription us) (?t, False) = (?t, False)"
    using updatesDescription_same[of ?t us] by (auto simp: editHistory_def Let_def)
  with assms(2) have "updateTaskItem now us ?t = ?t"
    by (simp add: updateTaskItem_def fold_applyTaskUpdate_same updatesBounds_same)
  with assms(1) show ?thesis
    by (simp add: updateTask_found modifyTask_same)
qed

theorem updateTask_same_values_changes_nothing_witness:
  "findItemInDraft demoStore ''T'' = Some (FoundTask 0 0) \<and>
   list_all (sameAsCurrent (taskAt demoStore 0 0))
     [U_name ''Task'', U_priority high, U_status todo, U_description None] \<and>
   updateTask demoStore 5 ''T'' [U_name ''Task'', U_priority high, U_status todo, U_description None]
     = (demoStore, Inr True)"
proof -
  have h1: "findItemInDraft demoStore ''T'' = Some (FoundTask 0 0)" by code_simp
  have h2: "list_all (sameAsCurrent (taskAt demoStore 0 0))
     [U_name ''Task'', U_priority high, U_status todo, U_description None]" by code_simp
  from updateTask_same_values_changes_nothing [OF h1 h2, of 5] h1 h2
  show ?thesis by blast
qed

section \<open>The reorder lock\<close>

text \<open>
  C4. For a container whose \<^verbatim>\<open>sequenceMandatory\<close> flag is true, the reorder
  operation for its children (\<^verbatim>\<open>reorderSubtasks\<close> on such a task,
  \<^verbatim>\<open>reorderActivities\<close> on such a subtask) with any id list leaves the store
  unchanged: no order value, no position in the array and no
  \<^verbatim>\<open>lastEditedDate\<close> changes.
\<close>

theorem reorder_locked_changes_nothing:
  "(findItemInDraft s i = Some (FoundTask li ti) \<and> sequenceMandatory (taskAt s li ti) \<longrightarrow>
      reorderSubtasks s now i ids = s) \<and>
   (findItemInDraft s i = Some (FoundSubtask li ti si) \<and> sequenceMandatory (subtaskAt s li ti si) \<longrightarrow>
      reorderActivities s now i ids = s)"
  by (auto simp: reorderSubtasks_def reorderActivities_def modifyTask_same)

theorem reorder_locked_changes_nothing_witness:
  "findItemInDraft lockedStore ''T'' = Some (FoundTask 0 0) \<and>
   sequenceMandatory (taskAt lockedStore 0 0) \<and>
   reorderSubtasks lockedStore 9 ''T'' [''S2'', ''S1''] = lockedStore \<and>
   findItemInDraft lockedStore ''S1'' = Some (FoundSubtask 0 0 0) \<and>
   sequenceMandatory (subtaskAt lockedStore 0 0 0) \<and>
   reorderActivities lockedStore 9 ''S1'' [''A2'', ''A1''] = lockedStore"
proof -
  have h1: "findItemInDraft lockedStore ''T'' = Some (FoundTask 0 0)" by code_simp
  have h2: "sequenceMandatory (taskAt lockedStore 0 0)" by code_simp
  have h3: "findItemInDraft lockedStore ''S1'' = Some (FoundSubtask 0 0 0)" by code_simp
  have h4: "sequenceMandatory (subtaskAt lockedStore 0 0 0)" by code_simp
  from reorder_locked_changes_nothing [of lockedStore "''T''" 0 0 9 "[''S2'', ''S1'']" 0] h1 h2
  have a: "reorderSubtasks lockedStore 9 ''T'' [''S2'', ''S1''] = lockedStore" by blast
  from reorder_locked_changes_nothing [of lockedStore "''S1''" 0 0 9 "[''A2'', ''A1'']" 0] h3 h4
  have b: "reorderActivities lockedStore 9 ''S1'' [''A2'', ''A1''] = lockedStore" by blast
  from a b h1 h2 h3 h4 show ?thesis by blast
qed

section \<open>The cascade of date bounds\<close>

text \<open>
  What the cascade does establish for a child: its creation date is not
  before the parent's, its own dates are in order, and its expected
  completion date is not after the parent's provided the child did not start
  after the parent's end.
\<close>

lemma clampIntoParent_within:
  "creationDate c \<le> pe \<Longrightarrow> pc \<le> pe \<Longrightarrow> expectedCompletionDate (clampIntoParent now pc pe c) \<le> pe"
  by (simp add: clampIntoParent_def Let_def)

lemma cascadeSubtask_bounds:
  "pc \<le> creationDate (cascadeSubtask now pc pe st) \<and>
   creationDate (cascadeSubtask now pc pe st) \<le> expectedCompletionDate (cascadeSubtask now pc pe st) \<and>
   (creationDate st \<le> pe \<and> pc \<le> pe \<longrightarrow> expectedCompletionDate (cascadeSubtask now pc pe st) \<le> pe)"
  by (simp add: cascadeSubtask_def cascadeActivities_def clampIntoParent_creation clampIntoParent_dates
        clampIntoParent_within)

lemma updateTask_cascade_bounds:
  assumes "updatesBounds us" and "st' \<in> set (subtasks (updateTaskItem now us t))"
  shows "creationDate (updateTaskItem now us t) \<le> creationDate st' \<and>
         creationDate st' \<le> expectedCompletionDate st'"
proof -
  from assms obtain st where "st' = cascadeSubtask now (creationDate (updateTaskItem now us t))
      (expectedCompletionDate (updateTaskItem now us t)) st"
    by (auto simp: updateTaskItem_subtasks)
  then show ?thesis using cascadeSubtask_bounds by blast
qed

text \<open>
  C2 says that after an \<^verbatim>\<open>updateTask\<close> that changes a date of the task,
  every subtask has \<^verbatim>\<open>Subtask.expectedCompletionDate <= Task.expectedCompletionDate\<close>.
  The cascade lowers the subtask's expected completion date to the task's and
  then raises it again to the subtask's own creation date. On the task from 0
  to 10 whose subtask runs from 8 to 9, \<^verbatim>\<open>updateTask('T', {expectedCompletionDate: 5})\<close>
  leaves the task ending at 5 and the subtask ending at 8. In the same way
  \<^verbatim>\<open>updateSubtask('S1', {creationDate: 0, expectedCompletionDate: 5})\<close> leaves
  an activity from 8 to 9 ending at 8 under a subtask that ends at 5.
\<close>

theorem cascade_leaves_child_after_parent:
  "creationDate (taskAt narrowedStore 0 0) = 0 \<and>
   expectedCompletionDate (taskAt narrowedStore 0 0) = 10 \<and>
   creationDate (subtaskAt narrowedStore 0 0 0) = 8 \<and>
   expectedCompletionDate (subtaskAt narrowedStore 0 0 0) = 9 \<and>
   snd (updateTask narrowedStore 2 ''T'' [U_expectedCompletionDate 5]) = Inr True \<and>
   expectedCompletionDate (taskAt (fst (updateTask narrowedStore 2 ''T'' [U_expectedCompletionDate 5])) 0 0) = 5 \<and>
   expectedCompletionDate (subtaskAt (fst (updateTask narrowedStore 2 ''T'' [U_expectedCompletionDate 5])) 0 0 0) = 8 \<and>
   creationDate (activityAt narrowedStore 0 0 0 0) = 8 \<and>
   expectedCompletionDate (activityAt narrowedStore 0 0 0 0) = 9 \<and>
   expectedCompletionDate (subtaskAt (fst (updateSubtask narrowedStore 2 ''S1'' [U_creationDate 0, U_expectedCompletionDate 5])) 0 0 0) = 5 \<and>
   expectedCompletionDate (activityAt (fst (updateSubtask narrowedStore 2 ''S1'' [U_creationDate 0, U_expectedCompletionDate 5])) 0 0 0 0) = 8"
  by code_simp


section \<open>Properties of the serial-completion gate\<close>

text \<open>\<^verbatim>\<open>findItemRecursive\<close> returns nothing exactly for an id that the tree does not have.\<close>

lemma distinct_concat_member:
  "distinct (concat (map f xs)) \<Longrightarrow> x \<in> set xs \<Longrightarrow> distinct (f x)"
  by (induction xs) auto

lemma findRecursiveActivities_None:
  "(findRecursiveActivities i as p = None) = (i \<notin> set (map id' as))"
  by (induction as) auto

lemma findRecursiveSubtasks_None:
  "(findRecursiveSubtasks i sts p = None) = (i \<notin> set (concat (map flatIdsOfSubtask sts)))"
proof (induction sts)
  case Nil
  then show ?case by simp
next
  case (Cons st sts)
  show ?case
    using Cons.IH findRecursiveActivities_None[of i "activities st" "Some (ItemSubtask st)"]
    by (cases "findRecursiveActivities i (activities st) (Some (ItemSubtask st))")
       (auto simp: flatIdsOfSubtask_def)
qed

lemma findRecursiveTasks_None:
  "(findRecursiveTasks i ts p = None) = (i \<notin> set (concat (map flatIdsOfTask ts)))"
proof (induction ts)
  case Nil
  then show ?case by simp
next
  case (Cons t ts)
  show ?case
    using Cons.IH findRecursiveSubtasks_None[of i "subtasks t" "Some (ItemTask t)"]
    by (cases "findRecursiveSubtasks i (subtasks t) (Some (ItemTask t))")
       (auto simp: flatIdsOfTask_def)
qed

lemma findRecursiveLists_None:
  "(findRecursiveLists i ls p = None) = (i \<notin> set (concat (map flatIdsOfList ls)))"
proof (induction ls)
  case Nil
  then show ?case by simp
next
  case (Cons l ls)
  show ?case
    using Cons.IH findRecursiveTasks_None[of i "tasks l" "Some (ItemTaskList l)"]
    by (cases "findRecursiveTasks i (tasks l) (Some (ItemTaskList l))")
       (auto simp: flatIdsOfList_def)
qed

lemma findRecursiveActivities_found:
  "distinct (map id' as) \<Longrightarrow> a \<in> set as \<Longrightarrow>
   findRecursiveActivities (id' a) as p = Some (ItemActivity a, p)"
  by (induction as) auto

lemma findRecursiveSubtasks_found:
  "distinct (concat (map flatIdsOfSubtask sts)) \<Longrightarrow> st \<in> set sts \<Longrightarrow>
   findRecursiveSubtasks (id' st) sts p = Some (ItemSubtask st, p)"
proof (induction sts)
  case Nil
  then show ?case by simp
next
  case (Cons x sts)
  show ?case
  proof (cases "x = st")
    case True
    then show ?thesis by simp
  next
    case False
    with Cons.prems have mem: "st \<in> set sts" by simp
    then have "id' st \<in> set (concat (map flatIdsOfSubtask sts))"
      by (auto simp: flatIdsOfSubtask_def)
    with Cons.prems(1) have "id' st \<notin> set (flatIdsOfSubtask x)" by auto
    then have "id' x \<noteq> id' st" "findRecursiveActivities (id' st) (activities x) (Some (ItemSubtask x)) = None"
      by (auto simp: flatIdsOfSubtask_def findRecursiveActivities_None)
    with Cons mem show ?thesis by simp
  qed
qed

lemma findRecursiveSubtasks_deep:
  "distinct (concat (map flatIdsOfSubtask sts)) \<Longrightarrow> st \<in> set sts \<Longrightarrow>
   findRecursiveActivities i (activities st) (Some (ItemSubtask st)) = Some r \<Longrightarrow>
   findRecursiveSubtasks i sts p = Some r"
proof (induction sts)
  case Nil
  then show ?case by simp
next
  case (Cons x sts)
  from Cons.prems(3) have inst: "i \<in> set (map id' (activities st))"
    using findRecursiveActivities_None[of i "activities st" "Some (ItemSubtask st)"] by auto
  show ?case
  proof (cases "x = st")
    case True
    from Cons.prems(1) True inst have "id' x \<noteq> i" by (auto simp: flatIdsOfSubtask_def)
    with True Cons.prems(3) show ?thesis by simp
  next
    case False
    with Cons.prems have mem: "st \<in> set sts" by simp
    with inst have "i \<in> set (concat (map flatIdsOfSubtask sts))"
      by (auto simp: flatIdsOfSubtask_def)
    with Cons.prems(1) have "i \<notin> set (flatIdsOfSubtask x)" by auto
    then have "id' x \<noteq> i" "findRecursiveActivities i (activities x) (Some (ItemSubtask x)) = None"
      by (auto simp: flatIdsOfSubtask_def findRecursiveActivities_None)
    with Cons mem show ?thesis by simp
  qed
qed

lemma findRecursiveTasks_found:
  "distinct (concat (map flatIdsOfTask ts)) \<Longrightarrow> t \<in> set ts \<Longrightarrow>
   findRecursiveTasks (id' t) ts p = Some (ItemTask t, p)"
proof (induction ts)
  case Nil
  then show ?case by simp
next
  case (Cons x ts)
  show ?case
  proof (cases "x = t")
    case True
    then show ?thesis by simp
  next
    case False
    with Cons.prems have mem: "t \<in> set ts" by simp
    then have "id' t \<in> set (concat (map flatIdsOfTask ts))"
      by (auto simp: flatIdsOfTask_def)
    with Cons.prems(1) have "id' t \<notin> set (flatIdsOfTask x)" by auto
    then have "id' x \<noteq> id' t" "findRecursiveSubtasks (id' t) (subtasks x) (Some (ItemTask x)) = None"
      by (auto simp: flatIdsOfTask_def findRecursiveSubtasks_None)
    with Cons mem show ?thesis by simp
  qed
qed

lemma findRecursiveTasks_deep:
  "distinct (concat (map flatIdsOfTask ts)) \<Longrightarrow> t \<in> set ts \<Longrightarrow>
   findRecursiveSubtasks i (subtasks t) (Some (ItemTask t)) = Some r \<Longrightarrow>
   findRecursiveTasks i ts p = Some r"
proof (induction ts)
  case Nil
  then show ?case by simp
next
  case (Cons x ts)
  from Cons.prems(3) have inst: "i \<in> set (concat (map flatIdsOfSubtask (subtasks t)))"
    using findRecursiveSubtasks_None[of i "subtasks t" "Some (ItemTask t)"] by auto
  show ?case
  proof (cases "x = t")
    case True
    from Cons.prems(1) True inst have "id' x \<noteq> i" by (auto simp: flatIdsOfTask_def)
    with True Cons.prems(3) show ?thesis by simp
  next
    case False
    with Cons.prems have mem: "t \<in> set ts" by simp
    with inst have "i \<in> set (concat (map flatIdsOfTask ts))"
      by (auto simp: flatIdsOfTask_def)
    with Cons.prems(1) have "i \<notin> set (flatIdsOfTask x)" by auto
    then have "id' x \<noteq> i" "findRecursiveSubtasks i (subtasks x) (Some (ItemTask x)) = None"
      by (auto simp: flatIdsOfTask_def findRecursiveSubtasks_None)
    with Cons mem show ?thesis by simp
  qed
qed

lemma findRecursiveLists_found:
  "distinct (concat (map flatIdsOfList ls)) \<Longrightarrow> l \<in> set ls \<Longrightarrow>
   findRecursiveLists (id' l) ls p = Some (ItemTaskList l, p)"
proof (induction ls)
  case Nil
  then show ?case by simp
next
  case (Cons x ls)
  show ?case
  proof (cases "x = l")
    case True
    then show ?thesis by simp
  next
    case False
    with Cons.prems have mem: "l \<in> set ls" by simp
    then have "id' l \<in> set (concat (map flatIdsOfList ls))"
      by (auto simp: flatIdsOfList_def)
    with Cons.prems(1) have "id' l \<notin> set (flatIdsOfList x)" by auto
    then have "id' x \<noteq> id' l" "findRecursiveTasks (id' l) (tasks x) (Some (ItemTaskList x)) = None"
      by (auto simp: flatIdsOfList_def findRecursiveTasks_None)
    with Cons mem show ?thesis by simp
  qed
qed

lemma findRecursiveLists_deep:
  "distinct (concat (map flatIdsOfList ls)) \<Longrightarrow> l \<in> set ls \<Longrightarrow>
   findRecursiveTasks i (tasks l) (Some (ItemTaskList l)) = Some r \<Longrightarrow>
   findRecursiveLists i ls p = Some r"
proof (induction ls)
  case Nil
  then show ?case by simp
next
  case (Cons x ls)
  from Cons.prems(3) have inst: "i \<in> set (concat (map flatIdsOfTask (tasks l)))"
    using findRecursiveTasks_None[of i "tasks l" "Some (ItemTaskList l)"] by auto
  show ?case
  proof (cases "x = l")
    case True
    from Cons.prems(1) True inst have "id' x \<noteq> i" by (auto simp: flatIdsOfList_def)
    with True Cons.prems(3) show ?thesis by simp
  next
    case False
    with Cons.prems have mem: "l \<in> set ls" by simp
    with inst have "i \<in> set (concat (map flatIdsOfList ls))"
      by (auto simp: flatIdsOfList_def)
    with Cons.prems(1) have "i \<notin> set (flatIdsOfList x)" by auto
    then have "id' x \<noteq> i" "findRecursiveTasks i (tasks x) (Some (ItemTaskList x)) = None"
      by (auto simp: flatIdsOfList_def findRecursiveTasks_None)
    with Cons mem show ?thesis by simp
  qed
qed

text \<open>
  With pairwise distinct ids, \<^verbatim>\<open>findItem\<close> returns the item at a position
  together with its parent.
\<close>

lemma distinct_ids_of_list:
  assumes "distinct (allIds s)" and "li < length (taskLists s)"
  shows "distinct (concat (map flatIdsOfTask (tasks (listAt s li))))"
proof -
  from assms have "distinct (flatIdsOfList (listAt s li))"
    unfolding allIds_def listAt_def by (auto intro: distinct_concat_member)
  then show ?thesis by (simp add: flatIdsOfList_def)
qed

lemma distinct_ids_of_task:
  assumes "distinct (allIds s)" and "validPos s (FoundTask li ti)"
  shows "distinct (concat (map flatIdsOfSubtask (subtasks (taskAt s li ti))))"
proof -
  from assms have "distinct (flatIdsOfTask (taskAt s li ti))"
    using distinct_ids_of_list[of s li] unfolding taskAt_def
    by (auto intro: distinct_concat_member)
  then show ?thesis by (simp add: flatIdsOfTask_def)
qed

lemma distinct_ids_of_subtask:
  assumes "distinct (allIds s)" and "validPos s (FoundSubtask li ti si)"
  shows "distinct (map id' (activities (subtaskAt s li ti si)))"
proof -
  from assms have "distinct (flatIdsOfSubtask (subtaskAt s li ti si))"
    using distinct_ids_of_task[of s li ti] unfolding subtaskAt_def
    by (auto intro: distinct_concat_member)
  then show ?thesis by (simp add: flatIdsOfSubtask_def)
qed

lemma distinct_sibling_subtasks:
  assumes "distinct (allIds s)" and "validPos s (FoundTask li ti)"
  shows "distinct (map id' (subtasks (taskAt s li ti)))"
proof -
  have "distinct (concat (map flatIdsOfSubtask sts)) \<Longrightarrow> distinct (map id' sts)" for sts
    by (induction sts) (auto simp: flatIdsOfSubtask_def)
  with distinct_ids_of_task[OF assms] show ?thesis by blast
qed

lemma findItem_list:
  assumes "distinct (allIds s)" and "validPos s (FoundTaskList li)"
  shows "findItem s (id' (listAt s li)) = Some (ItemTaskList (listAt s li), None)"
proof -
  from assms(2) have "listAt s li \<in> set (taskLists s)" by (simp add: listAt_def)
  with assms(1) show ?thesis
    unfolding findItem_def allIds_def by (rule findRecursiveLists_found)
qed

lemma findItem_below_list:
  assumes "distinct (allIds s)" and "li < length (taskLists s)"
    and "findRecursiveTasks i (tasks (listAt s li)) (Some (ItemTaskList (listAt s li))) = Some r"
  shows "findItem s i = Some r"
proof -
  from assms(2) have "listAt s li \<in> set (taskLists s)" by (simp add: listAt_def)
  with assms(1) show ?thesis
    unfolding findItem_def allIds_def using assms(3) by (rule findRecursiveLists_deep)
qed

lemma findItem_below_task:
  assumes "distinct (allIds s)" and "validPos s (FoundTask li ti)"
    and "findRecursiveSubtasks i (subtasks (taskAt s li ti)) (Some (ItemTask (taskAt s li ti))) = Some r"
  shows "findItem s i = Some r"
proof -
  from assms(2) have li: "li < length (taskLists s)"
    and mem: "taskAt s li ti \<in> set (tasks (listAt s li))" by (simp_all add: taskAt_def)
  from distinct_ids_of_list[OF assms(1) li] mem assms(3)
  have "findRecursiveTasks i (tasks (listAt s li)) (Some (ItemTaskList (listAt s li))) = Some r"
    by (rule findRecursiveTasks_deep)
  with assms(1) li show ?thesis by (rule findItem_below_list)
qed

lemma findItem_below_subtask:
  assumes "distinct (allIds s)" and "validPos s (FoundSubtask li ti si)"
    and "findRecursiveActivities i (activities (subtaskAt s li ti si))
           (Some (ItemSubtask (subtaskAt s li ti si))) = Some r"
  shows "findItem s i = Some r"
proof -
  from assms(2) have vt: "validPos s (FoundTask li ti)"
    and mem: "subtaskAt s li ti si \<in> set (subtasks (taskAt s li ti))" by (simp_all add: subtaskAt_def)
  from distinct_ids_of_task[OF assms(1) vt] mem assms(3)
  have "findRecursiveSubtasks i (subtasks (taskAt s li ti)) (Some (ItemTask (taskAt s li ti))) = Some r"
    by (rule findRecursiveSubtasks_deep)
  with assms(1) vt show ?thesis by (rule findItem_below_task)
qed

lemma findItem_task:
  assumes "distinct (allIds s)" and "validPos s (FoundTask li ti)"
  shows "findItem s (id' (taskAt s li ti)) = Some (ItemTask (taskAt s li ti), Some (ItemTaskList (listAt s li)))"
proof -
  from assms(2) have li: "li < length (taskLists s)"
    and mem: "taskAt s li ti \<in> set (tasks (listAt s li))" by (simp_all add: taskAt_def)
  from distinct_ids_of_list[OF assms(1) li] mem
  have "findRecursiveTasks (id' (taskAt s li ti)) (tasks (listAt s li)) (Some (ItemTaskList (listAt s li)))
      = Some (ItemTask (taskAt s li ti), Some (ItemTaskList (listAt s li)))"
    by (rule findRecursiveTasks_found)
  with assms(1) li show ?thesis by (rule findItem_below_list)
qed

lemma findItem_subtask_at:
  assumes "distinct (allIds s)" and "validPos s (FoundSubtask li ti si)"
  shows "findItem s (id' (subtaskAt s li ti si))
           = Some (ItemSubtask (subtaskAt s li ti si), Some (ItemTask (taskAt s li ti)))"
proof -
  from assms(2) have vt: "validPos s (FoundTask li ti)"
    and mem: "subtaskAt s li ti si \<in> set (subtasks (taskAt s li ti))" by (simp_all add: subtaskAt_def)
  from distinct_ids_of_task[OF assms(1) vt] mem
  have "findRecursiveSubtasks (id' (subtaskAt s li ti si)) (subtasks (taskAt s li ti)) (Some (ItemTask (taskAt s li ti)))
      = Some (ItemSubtask (subtaskAt s li ti si), Some (ItemTask (taskAt s li ti)))"
    by (rule findRecursiveSubtasks_found)
  with assms(1) vt show ?thesis by (rule findItem_below_task)
qed

lemma findItem_activity_at:
  assumes "distinct (allIds s)" and "validPos s (FoundActivity li ti si ai)"
  shows "findItem s (id' (activityAt s li ti si ai))
           = Some (ItemActivity (activityAt s li ti si ai), Some (ItemSubtask (subtaskAt s li ti si)))"
proof -
  from assms(2) have vs: "validPos s (FoundSubtask li ti si)"
    and mem: "activityAt s li ti si ai \<in> set (activities (subtaskAt s li ti si))"
    by (simp_all add: activityAt_def)
  from distinct_ids_of_subtask[OF assms(1) vs] mem
  have "findRecursiveActivities (id' (activityAt s li ti si ai)) (activities (subtaskAt s li ti si))
        (Some (ItemSubtask (subtaskAt s li ti si)))
      = Some (ItemActivity (activityAt s li ti si ai), Some (ItemSubtask (subtaskAt s li ti si)))"
    by (rule findRecursiveActivities_found)
  with assms(1) vs show ?thesis by (rule findItem_below_subtask)
qed

lemma precedingDone_iff:
  "precedingDone i k xs = (\<forall>x\<in>set xs. id' x \<noteq> i \<longrightarrow> \<not> (order x < k \<and> status x \<noteq> done'))"
  by (induction xs) auto

lemma precedingDone_distinct:
  assumes "distinct (map id' xs)" and "x \<in> set xs"
  shows "precedingDone (id' x) (order x) xs = (\<forall>sib\<in>set xs. order sib < order x \<longrightarrow> status sib = done')"
proof -
  from assms(1) have "inj_on id' (set xs)" by (simp add: distinct_map)
  with assms(2) have "\<And>sib. sib \<in> set xs \<Longrightarrow> id' sib = id' x \<Longrightarrow> sib = x"
    by (auto dest: inj_onD)
  then show ?thesis unfolding precedingDone_iff by auto
qed

text \<open>
  C3. For an item whose parent is a container (a subtask under a task, an
  activity under a subtask), \<^verbatim>\<open>canStartItem\<close> of its id is true if and only if
  the parent's \<^verbatim>\<open>serialCompletionMandatory\<close> flag is false or every sibling
  with a strictly lower \<^verbatim>\<open>order\<close> has status \<^verbatim>\<open>done\<close>; for a task and for a
  task list it is true. The item is any subtask, activity, task or list of
  the tree, given by its position; the ids of the store are pairwise
  distinct.
\<close>

theorem canStartItem_iff_lower_siblings_done:
  assumes "distinct (allIds s)"
  shows "(validPos s (FoundSubtask li ti si) \<longrightarrow>
      canStartItem s (id' (subtaskAt s li ti si)) =
        (\<not> serialCompletionMandatory (taskAt s li ti) \<or>
         (\<forall>sib\<in>set (subtasks (taskAt s li ti)).
            order sib < order (subtaskAt s li ti si) \<longrightarrow> status sib = done'))) \<and>
   (validPos s (FoundActivity li ti si ai) \<longrightarrow>
      canStartItem s (id' (activityAt s li ti si ai)) =
        (\<not> serialCompletionMandatory (subtaskAt s li ti si) \<or>
         (\<forall>sib\<in>set (activities (subtaskAt s li ti si)).
            order sib < order (activityAt s li ti si ai) \<longrightarrow> status sib = done'))) \<and>
   (validPos s (FoundTask li ti) \<longrightarrow> canStartItem s (id' (taskAt s li ti))) \<and>
   (validPos s (FoundTaskList li) \<longrightarrow> canStartItem s (id' (listAt s li)))"
proof -
  have a: "canStartItem s (id' (subtaskAt s li ti si)) =
        (\<not> serialCompletionMandatory (taskAt s li ti) \<or>
         (\<forall>sib\<in>set (subtasks (taskAt s li ti)).
            order sib < order (subtaskAt s li ti si) \<longrightarrow> status sib = done'))"
    if v: "validPos s (FoundSubtask li ti si)"
  proof -
    from v have vt: "validPos s (FoundTask li ti)" by simp
    from v have "subtaskAt s li ti si \<in> set (subtasks (taskAt s li ti))" by (simp add: subtaskAt_def)
    then have "precedingDone (id' (subtaskAt s li ti si)) (order (subtaskAt s li ti si)) (subtasks (taskAt s li ti)) =
        (\<forall>sib\<in>set (subtasks (taskAt s li ti)). order sib < order (subtaskAt s li ti si) \<longrightarrow> status sib = done')"
      using distinct_sibling_subtasks[OF assms vt] by (rule precedingDone_distinct[rotated])
    then show ?thesis
      by (simp add: canStartItem_def findItem_subtask_at[OF assms v])
  qed
  have b: "canStartItem s (id' (activityAt s li ti si ai)) =
        (\<not> serialCompletionMandatory (subtaskAt s li ti si) \<or>
         (\<forall>sib\<in>set (activities (subtaskAt s li ti si)).
            order sib < order (activityAt s li ti si ai) \<longrightarrow> status sib = done'))"
    if v: "validPos s (FoundActivity li ti si ai)"
  proof -
    from v have vs: "validPos s (FoundSubtask li ti si)" by simp
    from v have "activityAt s li ti si ai \<in> set (activities (subtaskAt s li ti si))"
      by (simp add: activityAt_def)
    then have "precedingDone (id' (activityAt s li ti si ai)) (order (activityAt s li ti si ai))
          (activities (subtaskAt s li ti si)) =
        (\<forall>sib\<in>set (activities (subtaskAt s li ti si)).
            order sib < order (activityAt s li ti si ai) \<longrightarrow> status sib = done')"
      using distinct_ids_of_subtask[OF assms vs] by (rule precedingDone_distinct[rotated])
    then show ?thesis
      by (simp add: canStartItem_def findItem_activity_at[OF assms v])
  qed
  have c: "canStartItem s (id' (taskAt s li ti))" if v: "validPos s (FoundTask li ti)"
    by (simp add: canStartItem_def findItem_task[OF assms v])
  have d: "canStartItem s (id' (listAt s li))" if v: "validPos s (FoundTaskList li)"
    by (simp add: canStartItem_def findItem_list[OF assms v])
  from a b c d show ?thesis by blast
qed

theorem canStartItem_iff_lower_siblings_done_witness:
  "distinct (allIds serialStore) \<and>
   validPos serialStore (FoundActivity 0 0 0 1) \<and>
   id' (activityAt serialStore 0 0 0 1) = ''A2'' \<and>
   serialCompletionMandatory (subtaskAt serialStore 0 0 0) \<and>
   \<not> canStartItem serialStore ''A2'' \<and>
   distinct (allIds activityDoneStore) \<and>
   validPos activityDoneStore (FoundActivity 0 0 0 1) \<and>
   id' (activityAt activityDoneStore 0 0 0 1) = ''A2'' \<and>
   serialCompletionMandatory (subtaskAt activityDoneStore 0 0 0) \<and>
   canStartItem activityDoneStore ''A2'' \<and>
   validPos serialStore (FoundSubtask 0 0 1) \<and>
   id' (subtaskAt serialStore 0 0 1) = ''S2'' \<and>
   serialCompletionMandatory (taskAt serialStore 0 0) \<and>
   \<not> canStartItem serialStore ''S2'' \<and>
   distinct (allIds serialDoneStore) \<and>
   validPos serialDoneStore (FoundSubtask 0 0 1) \<and>
   id' (subtaskAt serialDoneStore 0 0 1) = ''S2'' \<and>
   serialCompletionMandatory (taskAt serialDoneStore 0 0) \<and>
   canStartItem serialDoneStore ''S2'' \<and>
   validPos demoStore (FoundActivity 0 0 0 1) \<and>
   \<not> serialCompletionMandatory (subtaskAt demoStore 0 0 0) \<and>
   canStartItem demoStore ''A2''"
proof -
  have d1: "distinct (allIds serialStore)" by code_simp
  have v1: "validPos serialStore (FoundActivity 0 0 0 1)" by code_simp
  have i1: "id' (activityAt serialStore 0 0 0 1) = ''A2''" by code_simp
  have m1: "serialCompletionMandatory (subtaskAt serialStore 0 0 0)" by code_simp
  have n1: "\<not> (\<forall>sib\<in>set (activities (subtaskAt serialStore 0 0 0)).
               order sib < order (activityAt serialStore 0 0 0 1) \<longrightarrow> status sib = done')"
    by code_simp
  have d2: "distinct (allIds activityDoneStore)" by code_simp
  have v2: "validPos activityDoneStore (FoundActivity 0 0 0 1)" by code_simp
  have i2: "id' (activityAt activityDoneStore 0 0 0 1) = ''A2''" by code_simp
  have m2: "serialCompletionMandatory (subtaskAt activityDoneStore 0 0 0)" by code_simp
  have n2: "\<forall>sib\<in>set (activities (subtaskAt activityDoneStore 0 0 0)).
               order sib < order (activityAt activityDoneStore 0 0 0 1) \<longrightarrow> status sib = done'"
    by code_simp
  have v3: "validPos serialStore (FoundSubtask 0 0 1)" by code_simp
  have i3: "id' (subtaskAt serialStore 0 0 1) = ''S2''" by code_simp
  have m3: "serialCompletionMandatory (taskAt serialStore 0 0)" by code_simp
  have n3: "\<not> (\<forall>sib\<in>set (subtasks (taskAt serialStore 0 0)).
               order sib < order (subtaskAt serialStore 0 0 1) \<longrightarrow> status sib = done')"
    by code_simp
  have d4: "distinct (allIds serialDoneStore)" by code_simp
  have v4: "validPos serialDoneStore (FoundSubtask 0 0 1)" by code_simp
  have i4: "id' (subtaskAt serialDoneStore 0 0 1) = ''S2''" by code_simp
  have m4: "serialCompletionMandatory (taskAt serialDoneStore 0 0)" by code_simp
  have n4: "\<forall>sib\<in>set (subtasks (taskAt serialDoneStore 0 0)).
               order sib < order (subtaskAt serialDoneStore 0 0 1) \<longrightarrow> status sib = done'"
    by code_simp
  have d5: "distinct (allIds demoStore)" by code_simp
  have v5: "validPos demoStore (FoundActivity 0 0 0 1)" by code_simp
  have i5: "id' (activityAt demoStore 0 0 0 1) = ''A2''" by code_simp
  have m5: "\<not> serialCompletionMandatory (subtaskAt demoStore 0 0 0)" by code_simp
  from canStartItem_iff_lower_siblings_done [OF d1, of 0 0 0 1] v1 n1 m1
  have a: "\<not> canStartItem serialStore ''A2''" unfolding i1 by blast
  from canStartItem_iff_lower_siblings_done [OF d2, of 0 0 0 1] v2 n2
  have b: "canStartItem activityDoneStore ''A2''" unfolding i2 by blast
  from canStartItem_iff_lower_siblings_done [OF d1, of 0 0 1] v3 n3 m3
  have c: "\<not> canStartItem serialStore ''S2''" unfolding i3 by blast
  from canStartItem_iff_lower_siblings_done [OF d4, of 0 0 1] v4 n4
  have d: "canStartItem serialDoneStore ''S2''" unfolding i4 by blast
  from canStartItem_iff_lower_siblings_done [OF d5, of 0 0 0 1] v5 m5
  have e: "canStartItem demoStore ''A2''" unfolding i5 by blast
  from a b c d e d1 v1 i1 m1 d2 v2 i2 m2 v3 i3 m3 d4 v4 i4 m4 v5 m5 show ?thesis by blast
qed

section \<open>Full days between two dates\<close>

lemma div_diff_days:
  fixes x y d :: int
  assumes "0 < d"
  shows "(x - y) div d = x div d - y div d - (if x mod d < y mod d then 1 else 0)"
proof (cases "x mod d < y mod d")
  case True
  have "x - y = d * (x div d - y div d - 1) + (x mod d - y mod d + d)"
    by (simp add: algebra_simps)
  moreover have "0 \<le> x mod d - y mod d + d"
    using pos_mod_sign[OF assms, of x] pos_mod_bound[OF assms, of y] by linarith
  moreover have "x mod d - y mod d + d < d" using True by simp
  ultimately have "(x - y) div d = x div d - y div d - 1"
    by (rule int_div_pos_eq)
  with True show ?thesis by simp
next
  case False
  have "x - y = d * (x div d - y div d) + (x mod d - y mod d)"
    by (simp add: algebra_simps)
  moreover have "0 \<le> x mod d - y mod d" using False by simp
  moreover have "x mod d - y mod d < d"
    using pos_mod_sign[OF assms, of y] pos_mod_bound[OF assms, of x] by linarith
  ultimately have "(x - y) div d = x div d - y div d"
    by (rule int_div_pos_eq)
  with False show ?thesis by simp
qed

lemma mathRound_days: "mathRound (k * msPerDay) msPerDay = k"
proof -
  have "2 * (k * msPerDay) + msPerDay = (2 * msPerDay) * k + msPerDay" by (simp add: algebra_simps)
  moreover have "0 \<le> msPerDay" "msPerDay < 2 * msPerDay" by (simp_all add: msPerDay_def)
  ultimately have "(2 * (k * msPerDay) + msPerDay) div (2 * msPerDay) = k"
    by (metis int_div_pos_eq)
  then show ?thesis by (simp add: mathRound_def)
qed

text \<open>
  When the readings that the library sets exist, \<^verbatim>\<open>differenceInDays\<close> is the
  number of full days between the two local readings.
\<close>

lemma differenceInCalendarDays_local:
  assumes "readingExists zone (LocalTime zone a div msPerDay * msPerDay)"
    and "readingExists zone (LocalTime zone b div msPerDay * msPerDay)"
  shows "differenceInCalendarDays zone a b = LocalTime zone a div msPerDay - LocalTime zone b div msPerDay"
proof -
  have "LocalTime zone (startOfDay zone a) = LocalTime zone a div msPerDay * msPerDay"
       "LocalTime zone (startOfDay zone b) = LocalTime zone b div msPerDay * msPerDay"
    using assms by (simp_all add: startOfDay_def setHoursZero_def readingExists_def)
  then have "differenceInCalendarDays zone a b =
      mathRound ((LocalTime zone a div msPerDay - LocalTime zone b div msPerDay) * msPerDay) msPerDay"
    by (simp add: differenceInCalendarDays_def getTimezoneOffsetInMilliseconds_def Let_def algebra_simps)
  then show ?thesis by (simp only: mathRound_days)
qed

lemma differenceInDays_local:
  assumes "readingsExist zone a b"
  shows "differenceInDays zone a b = fullDays (LocalTime zone a - LocalTime zone b)"
proof -
  define L where "L = LocalTime zone a"
  define R where "R = LocalTime zone b"
  define D where "D = msPerDay"
  have D: "0 < D" by (simp add: D_def msPerDay_def)
  from assms have e1: "readingExists zone (L div D * D)" and e2: "readingExists zone (R div D * D)"
    and e3: "readingExists zone (R div D * D + L mod D)"
    by (simp_all add: readingsExist_def L_def R_def D_def)
  have cal: "differenceInCalendarDays zone a b = L div D - R div D"
    using differenceInCalendarDays_local[of zone a b] e1 e2 by (simp add: L_def R_def D_def)
  have Ldecomp: "L = L div D * D + L mod D" by simp
  have resolved: "LocalTime zone (UTC zone (R div D * D + L mod D)) = R div D * D + L mod D"
    using e3 by (simp add: readingExists_def)
  have "R div D * D = R - R mod D" by (simp add: minus_mod_eq_div_mult)
  then have rest: "R div D * D + L mod D - R = L mod D - R mod D" by simp
  consider (lt) "L < R" | (eq) "L = R" | (gt) "R < L" by linarith
  then show ?thesis
  proof cases
    case eq
    then show ?thesis
      by (simp add: differenceInDays_def compareLocalAsc_def Let_def fullDays_def L_def[symmetric] R_def[symmetric])
  next
    case gt
    then have le: "R div D \<le> L div D" using D by (simp add: zdiv_mono1)
    have sign: "compareLocalAsc zone a b = 1"
      using gt by (simp add: compareLocalAsc_def Let_def L_def R_def)
    have diff: "abs (differenceInCalendarDays zone a b) = L div D - R div D"
      using cal le by simp
    have "L - 1 * (L div D - R div D) * D = R div D * D + L mod D"
      using Ldecomp by (simp add: algebra_simps)
    then have left': "LocalTime zone (setDateBack zone a (1 * (L div D - R div D))) = R div D * D + L mod D"
      using resolved by (simp add: setDateBack_def L_def[symmetric] D_def[symmetric])
    have cmp: "(compareLocalAsc zone (setDateBack zone a (1 * (L div D - R div D))) b = - 1) = (L mod D < R mod D)"
      unfolding compareLocalAsc_def Let_def left' R_def[symmetric] rest by auto
    have "differenceInDays zone a b = L div D - R div D - (if L mod D < R mod D then 1 else 0)"
      unfolding differenceInDays_def Let_def sign diff cmp by simp
    also have "\<dots> = (L - R) div D" using div_diff_days[OF D, of L R] by simp
    also have "\<dots> = fullDays (L - R)" using gt by (simp add: fullDays_def D_def)
    finally show ?thesis by (simp add: L_def R_def)
  next
    case lt
    then have le: "L div D \<le> R div D" using D by (simp add: zdiv_mono1)
    have sign: "compareLocalAsc zone a b = - 1"
      using lt by (simp add: compareLocalAsc_def Let_def L_def R_def)
    have diff: "abs (differenceInCalendarDays zone a b) = R div D - L div D"
      using cal le by simp
    have "L - (- 1) * (R div D - L div D) * D = R div D * D + L mod D"
      using Ldecomp by (simp add: algebra_simps)
    then have left': "LocalTime zone (setDateBack zone a ((- 1) * (R div D - L div D))) = R div D * D + L mod D"
      using resolved by (simp add: setDateBack_def L_def[symmetric] D_def[symmetric])
    have cmp: "(compareLocalAsc zone (setDateBack zone a ((- 1) * (R div D - L div D))) b = - (- 1)) = (R mod D < L mod D)"
      unfolding compareLocalAsc_def Let_def left' R_def[symmetric] rest by auto
    have "differenceInDays zone a b = - (R div D - L div D - (if R mod D < L mod D then 1 else 0))"
      unfolding differenceInDays_def Let_def sign diff cmp by simp
    also have "\<dots> = - ((R - L) div D)" using div_diff_days[OF D, of R L] by simp
    also have "\<dots> = fullDays (L - R)" using lt by (simp add: fullDays_def D_def)
    finally show ?thesis by (simp add: L_def R_def)
  qed
qed

text \<open>In a time zone without clock changes every reading exists, and a full day is 24 hours.\<close>

lemma readingsExist_fixed_offset:
  assumes "offsetAtInstant zone = (\<lambda>t. c)" and "offsetOfReading zone = (\<lambda>reading. c)"
  shows "readingsExist zone a b"
  using assms by (simp add: readingsExist_def readingExists_def LocalTime_def UTC_def)

lemma differenceInDays_fixed_offset:
  assumes "offsetAtInstant zone = (\<lambda>t. c)" and "offsetOfReading zone = (\<lambda>reading. c)"
  shows "differenceInDays zone a b = fullDays (a - b)"
  using differenceInDays_local[OF readingsExist_fixed_offset[OF assms], of a b] assms
  by (simp add: LocalTime_def)

text \<open>
  Across the clock change in New York, 47 hours from Saturday noon to Monday
  noon are two full days, and half an hour less than eight times 24 hours
  are eight.
\<close>

lemma differenceInDays_across_clock_change:
  "mondayNoon - saturdayNoon = 47 * msPerHour \<and>
   differenceInDays newYork mondayNoon saturdayNoon = 2 \<and>
   differenceInDays utcZone mondayNoon saturdayNoon = 1 \<and>
   differenceInDays newYork (saturdayNoon + 8 * msPerDay - msPerHour div 2) saturdayNoon = 8 \<and>
   differenceInDays utcZone (saturdayNoon + 8 * msPerDay - msPerHour div 2) saturdayNoon = 7"
  by code_simp

section \<open>The positions of the tree\<close>

text \<open>
  \<^verbatim>\<open>getAllItemsRecursive\<close> lists the item at every position of a task, a
  subtask or an activity, each position once.
\<close>

lemma map_by_index: "map (\<lambda>i. f (xs ! i)) [0..<length xs] = map f xs"
  by (rule nth_equalityI) simp_all

lemma subtaskPositions_items:
  "map (\<lambda>p. the (workItemAt s p)) (subtaskPositions s li ti si) =
     WSubtask (subtaskAt s li ti si) # map WActivity (activities (subtaskAt s li ti si))"
  by (simp add: subtaskPositions_def o_def activityAt_def map_by_index[of WActivity])

lemma taskPositions_items:
  "map (\<lambda>p. the (workItemAt s p)) (taskPositions s li ti) =
     WTask (taskAt s li ti) #
       concat (map (\<lambda>subtask. WSubtask subtask # map WActivity (activities subtask))
                (subtasks (taskAt s li ti)))"
  by (simp add: taskPositions_def map_concat o_def subtaskPositions_items subtaskAt_def
        map_by_index[of "\<lambda>subtask. WSubtask subtask # map WActivity (activities subtask)"])

lemma listPositions_items:
  "map (\<lambda>p. the (workItemAt s p)) (listPositions s li) =
     concat (map (\<lambda>task. WTask task #
         concat (map (\<lambda>subtask. WSubtask subtask # map WActivity (activities subtask)) (subtasks task)))
       (tasks (listAt s li)))"
  by (simp add: listPositions_def map_concat o_def taskPositions_items taskAt_def
        map_by_index[of "\<lambda>task. WTask task #
         concat (map (\<lambda>subtask. WSubtask subtask # map WActivity (activities subtask)) (subtasks task))"])

lemma getAllItems_positions:
  "getAllItems s = map (\<lambda>p. the (workItemAt s p)) (workPositions s)"
  by (simp add: getAllItems_def getAllItemsRecursive_def workPositions_def map_concat o_def
        listPositions_items listAt_def
        map_by_index[of "\<lambda>list. concat (map (\<lambda>task. WTask task #
           concat (map (\<lambda>subtask. WSubtask subtask # map WActivity (activities subtask)) (subtasks task)))
         (tasks list))"])

lemma in_subtaskPositions:
  "(p \<in> set (subtaskPositions s li ti si)) =
     (p = FoundSubtask li ti si \<or>
      (\<exists>ai<length (activities (subtaskAt s li ti si)). p = FoundActivity li ti si ai))"
  by (auto simp: subtaskPositions_def)

lemma in_taskPositions:
  "(p \<in> set (taskPositions s li ti)) =
     (p = FoundTask li ti \<or>
      (\<exists>si<length (subtasks (taskAt s li ti)). p \<in> set (subtaskPositions s li ti si)))"
  by (auto simp: taskPositions_def)

lemma in_listPositions:
  "(p \<in> set (listPositions s li)) =
     (\<exists>ti<length (tasks (listAt s li)). p \<in> set (taskPositions s li ti))"
  by (auto simp: listPositions_def)

lemma in_workPositions:
  "(p \<in> set (workPositions s)) = (\<exists>li<length (taskLists s). p \<in> set (listPositions s li))"
  by (auto simp: workPositions_def)

lemma set_workPositions:
  "set (workPositions s) = {p. validPos s p \<and> workItemAt s p \<noteq> None}"
proof (rule set_eqI)
  fix p
  show "(p \<in> set (workPositions s)) = (p \<in> {p. validPos s p \<and> workItemAt s p \<noteq> None})"
    by (cases p)
       (auto simp: in_workPositions in_listPositions in_taskPositions in_subtaskPositions)
qed

lemma distinct_concat_map_upt:
  assumes "\<And>i. i < n \<Longrightarrow> distinct (f i)"
    and "\<And>i j. i < n \<Longrightarrow> j < n \<Longrightarrow> i \<noteq> j \<Longrightarrow> set (f i) \<inter> set (f j) = {}"
  shows "distinct (concat (map f [0..<n]))"
  using assms
proof (induction n)
  case 0
  then show ?case by simp
next
  case (Suc n)
  have "distinct (concat (map f [0..<n]))" using Suc by simp
  moreover have "distinct (f n)" using Suc.prems(1) by simp
  moreover have "set (concat (map f [0..<n])) \<inter> set (f n) = {}"
  proof -
    have "x \<notin> set (f n)" if "i < n" and "x \<in> set (f i)" for i x
    proof -
      from that(1) have "set (f i) \<inter> set (f n) = {}" by (intro Suc.prems(2)) simp_all
      with that(2) show ?thesis by blast
    qed
    then show ?thesis by auto
  qed
  ultimately show ?case by simp
qed

lemma distinct_subtaskPositions: "distinct (subtaskPositions s li ti si)"
  by (auto simp: subtaskPositions_def distinct_map inj_on_def)

lemma distinct_taskPositions: "distinct (taskPositions s li ti)"
proof -
  have "distinct (concat (map (subtaskPositions s li ti) [0..<length (subtasks (taskAt s li ti))]))"
    by (rule distinct_concat_map_upt) (auto simp: distinct_subtaskPositions in_subtaskPositions)
  moreover have "FoundTask li ti \<notin> set (concat (map (subtaskPositions s li ti) [0..<length (subtasks (taskAt s li ti))]))"
    by (auto simp: in_subtaskPositions)
  ultimately show ?thesis by (simp add: taskPositions_def)
qed

lemma distinct_listPositions: "distinct (listPositions s li)"
  unfolding listPositions_def
  by (rule distinct_concat_map_upt)
     (auto simp: distinct_taskPositions in_taskPositions in_subtaskPositions)

lemma distinct_workPositions: "distinct (workPositions s)"
  unfolding workPositions_def
  by (rule distinct_concat_map_upt)
     (auto simp: distinct_listPositions in_listPositions in_taskPositions in_subtaskPositions)

section \<open>Properties of the Today selector\<close>

lemma todayEntry_None:
  "(todayEntry zone s today item original = None) =
     (\<not> (status item \<noteq> done' \<and> (priority item = high \<or> priority item = medium) \<and>
        (expectedCompletionDate item < today \<or>
         differenceInDays zone (expectedCompletionDate item) today \<le> 7)))"
  by (auto simp: todayEntry_def Let_def isPast_def split: prod.splits)

lemma todayEntry_Some:
  "todayEntry zone s today item original = Some e \<Longrightarrow>
     originalItem e = original \<and>
     isOverdue e = (expectedCompletionDate item < today) \<and>
     daysUntilDue e = differenceInDays zone (expectedCompletionDate item) today \<and>
     urgencyScore e = priorityScore (priority item) * 10 + statusScore (status item) * 5
        - daysUntilDue e + (if isOverdue e then 10 else 0)"
  by (auto simp: todayEntry_def Let_def isPast_def split: prod.splits if_splits)

lemma todayEntryOf_None: "(todayEntryOf zone s today w = None) = (\<not> includedToday zone today w)"
  by (cases w) (simp_all add: todayEntry_None includedToday_def)

lemma todayEntryOf_Some:
  "todayEntryOf zone s today w = Some e \<Longrightarrow>
     originalItem e = w \<and>
     isOverdue e = (workExpected w < today) \<and>
     daysUntilDue e = differenceInDays zone (workExpected w) today \<and>
     urgencyScore e = priorityScore (workPriority w) * 10 + statusScore (workStatus w) * 5
        - daysUntilDue e + (if isOverdue e then 10 else 0)"
  by (cases w) (simp_all add: todayEntry_Some)

lemma originals_map_filter:
  "map originalItem (List.map_filter (todayEntryOf zone s today) ws) = filter (includedToday zone today) ws"
proof (induction ws)
  case Nil
  then show ?case by simp
next
  case (Cons w ws)
  show ?case
  proof (cases "todayEntryOf zone s today w")
    case None
    with Cons show ?thesis
      using todayEntryOf_None[of zone s today w] by simp
  next
    case (Some e)
    with Cons show ?thesis
      using todayEntryOf_None[of zone s today w] todayEntryOf_Some[of zone s today w e]
      by simp
  qed
qed

lemma originals_getTodayItems:
  "mset (map originalItem (getTodayItems zone s today)) =
     mset (filter (includedToday zone today) (getAllItems s))"
proof -
  have "mset (map originalItem (getTodayItems zone s today))
      = mset (map originalItem (List.map_filter (todayEntryOf zone s today) (getAllItems s)))"
    unfolding getTodayItems_def by (simp only: mset_map mset_sort)
  then show ?thesis by (simp only: originals_map_filter)
qed

lemma set_originals:
  "originalItem ` set (getTodayItems zone s today) =
     {w \<in> set (getAllItems s). includedToday zone today w}"
proof -
  have "set (map originalItem (getTodayItems zone s today))
      = set (filter (includedToday zone today) (getAllItems s))"
    using originals_getTodayItems by (rule mset_eq_setD)
  then show ?thesis by simp
qed

lemma set_getAllItems:
  "set (getAllItems s) = {w. \<exists>p. validPos s p \<and> workItemAt s p = Some w}"
proof -
  have "set (getAllItems s) = (\<lambda>p. the (workItemAt s p)) ` {p. validPos s p \<and> workItemAt s p \<noteq> None}"
    by (simp add: getAllItems_positions set_workPositions)
  then show ?thesis by force
qed

lemma length_getTodayItems:
  "length (getTodayItems zone s today) =
     card {p. validPos s p \<and> (\<exists>w. workItemAt s p = Some w \<and> includedToday zone today w)}"
proof -
  let ?P = "\<lambda>p. includedToday zone today (the (workItemAt s p))"
  have "length (getTodayItems zone s today) = length (map originalItem (getTodayItems zone s today))"
    by simp
  also have "\<dots> = size (mset (map originalItem (getTodayItems zone s today)))"
    by (simp only: size_mset)
  also have "\<dots> = length (filter (includedToday zone today) (getAllItems s))"
    by (simp only: originals_getTodayItems size_mset)
  also have "\<dots> = length (filter ?P (workPositions s))"
    by (simp add: getAllItems_positions filter_map o_def)
  also have "\<dots> = card (set (filter ?P (workPositions s)))"
    using distinct_card[OF distinct_filter[OF distinct_workPositions[of s], of ?P]] by simp
  also have "set (filter ?P (workPositions s)) =
      {p. validPos s p \<and> (\<exists>w. workItemAt s p = Some w \<and> includedToday zone today w)}"
    by (auto simp: set_workPositions)
  finally show ?thesis .
qed



text \<open>
  C7 as the specification states it: the urgency score is
  \<^verbatim>\<open>priorityWeight*10 + statusWeight*5 - daysUntilDue + (10 if isOverdue else 0)\<close>
  with \<^verbatim>\<open>daysUntilDue = floor(expectedCompletionDate - now, in days)\<close>. For the
  task of high priority and status \<^verbatim>\<open>todo\<close> that was due a day and a half ago
  (in UTC) the selector gives 51, and the stated formula gives 52:
  \<^verbatim>\<open>differenceInDays\<close> truncates the fraction towards zero, which is -1 and
  not the floor -2.
\<close>

theorem urgencyScore_is_not_floor_of_days:
  "map urgencyScore (getTodayItems utcZone lateStore (5 * msPerDay div 2)) = [51] \<and>
   map (claimedUrgencyScore (5 * msPerDay div 2))
     (map originalItem (getTodayItems utcZone lateStore (5 * msPerDay div 2))) = [52]"
  by code_simp

text \<open>
  C7, amended. For every entry of \<^verbatim>\<open>getTodayItems\<close>, the urgency score is
  \<^verbatim>\<open>priorityWeight*10 + statusWeight*5 - daysUntilDue + (10 if isOverdue else 0)\<close>
  with the weights high=3, medium=2, low=1 and inprogress=4, started=3,
  todo=2, done=0, where \<^verbatim>\<open>isOverdue\<close> says that the expected completion date
  lies before now, and \<^verbatim>\<open>daysUntilDue\<close> is \<^verbatim>\<open>differenceInDays\<close> of date-fns
  from now to the expected completion date: the number of full days between
  the local date and time of the two, the fraction truncated towards zero
  (negative or zero for an overdue item), whenever the local readings that
  the library sets exist in the time zone of the host.
\<close>

theorem urgencyScore_formula:
  assumes "e \<in> set (getTodayItems zone s today)"
  shows "urgencyScore e =
       (case workPriority (originalItem e) of high \<Rightarrow> 3 | medium \<Rightarrow> 2 | low \<Rightarrow> 1) * 10 +
       (case workStatus (originalItem e) of inprogress \<Rightarrow> 4 | started \<Rightarrow> 3 | todo \<Rightarrow> 2 | done' \<Rightarrow> 0) * 5 -
       daysUntilDue e + (if isOverdue e then 10 else 0) \<and>
     isOverdue e = (workExpected (originalItem e) < today) \<and>
     daysUntilDue e = differenceInDays zone (workExpected (originalItem e)) today \<and>
     (readingsExist zone (workExpected (originalItem e)) today \<longrightarrow>
        daysUntilDue e =
          fullDays (LocalTime zone (workExpected (originalItem e)) - LocalTime zone today))"
proof -
  from assms have "e \<in> set (List.map_filter (todayEntryOf zone s today) (getAllItems s))"
    by (simp add: getTodayItems_def)
  then obtain w where "todayEntryOf zone s today w = Some e"
    by (auto simp: List.map_filter_def)
  from todayEntryOf_Some[OF this] show ?thesis
    by (simp add: priorityScore_def statusScore_def differenceInDays_local)
qed

theorem urgencyScore_formula_witness:
  "hd (getTodayItems newYork clockChangeStore saturdayNoon)
     \<in> set (getTodayItems newYork clockChangeStore saturdayNoon) \<and>
   workPriority (originalItem (hd (getTodayItems newYork clockChangeStore saturdayNoon))) = high \<and>
   workStatus (originalItem (hd (getTodayItems newYork clockChangeStore saturdayNoon))) = todo \<and>
   workExpected (originalItem (hd (getTodayItems newYork clockChangeStore saturdayNoon))) = mondayNoon \<and>
   mondayNoon - saturdayNoon = 47 * msPerHour \<and>
   readingsExist newYork mondayNoon saturdayNoon \<and>
   LocalTime newYork mondayNoon - LocalTime newYork saturdayNoon = 2 * msPerDay \<and>
   \<not> isOverdue (hd (getTodayItems newYork clockChangeStore saturdayNoon)) \<and>
   daysUntilDue (hd (getTodayItems newYork clockChangeStore saturdayNoon)) = 2 \<and>
   urgencyScore (hd (getTodayItems newYork clockChangeStore saturdayNoon)) = 38"
proof -
  let ?e = "hd (getTodayItems newYork clockChangeStore saturdayNoon)"
  have h1: "?e \<in> set (getTodayItems newYork clockChangeStore saturdayNoon)" by code_simp
  have h2: "workPriority (originalItem ?e) = high" by code_simp
  have h3: "workStatus (originalItem ?e) = todo" by code_simp
  have h4: "workExpected (originalItem ?e) = mondayNoon" by code_simp
  have h5: "readingsExist newYork mondayNoon saturdayNoon" by code_simp
  have h6: "LocalTime newYork mondayNoon - LocalTime newYork saturdayNoon = 2 * msPerDay"
    by code_simp
  have h7: "fullDays (2 * msPerDay) = 2" by code_simp
  have h8: "(mondayNoon < saturdayNoon) = False" by code_simp
  have h9: "mondayNoon - saturdayNoon = 47 * msPerHour" by code_simp
  from urgencyScore_formula [OF h1]
  have "\<not> isOverdue ?e" "daysUntilDue ?e = 2" "urgencyScore ?e = 38"
    using h5 by (simp_all add: h2 h3 h4 h6 h7 h8)
  with h1 h2 h3 h4 h5 h6 h9 show ?thesis by blast
qed


section \<open>Order values of siblings\<close>

lemma dense_mset: "dense os = (mset os = mset [0..<length os])"
proof
  assume "dense os"
  then have "mset (sort os) = mset [0..<length os]" by (simp add: dense_def)
  then show "mset os = mset [0..<length os]" by simp
next
  assume "mset os = mset [0..<length os]"
  then have "sort os = [0..<length os]"
    by (intro properties_for_sort) simp_all
  then show "dense os" by (simp add: dense_def)
qed

lemma dense_upt [simp]: "dense [0..<n]"
  by (simp add: dense_mset)

lemma dense_Nil [simp]: "dense []"
  by (simp add: dense_def)

lemma dense_snoc: "dense os \<Longrightarrow> dense (os @ [length os])"
  by (simp add: dense_mset)

lemma map_order_renumber [simp]: "map order (renumber xs) = [0..<length xs]"
proof -
  have "map order (renumber xs) = map snd (zip xs [0..<length xs])"
    by (simp add: renumber_def case_prod_unfold o_def)
  then show ?thesis by simp
qed

lemma length_renumber [simp]: "length (renumber xs) = length xs"
  by (simp add: renumber_def)

lemma list_all_renumber:
  assumes "list_all P xs" and "\<And>x k. P x \<Longrightarrow> P (x\<lparr>order := k\<rparr>)"
  shows "list_all P (renumber xs)"
  using assms
  by (auto simp: renumber_def list_all_iff dest: set_zip_leftD)

lemma fold_upd_other:
  "k \<notin> fst ` set ps \<Longrightarrow> fold (\<lambda>(i, index) m. m(i \<mapsto> index)) ps m k = m k"
  by (induction ps arbitrary: m) auto

lemma fold_upd_distinct:
  "distinct (map fst ps) \<Longrightarrow> (k, v) \<in> set ps \<Longrightarrow>
   fold (\<lambda>(i, index) m. m(i \<mapsto> index)) ps m k = Some v"
proof (induction ps arbitrary: m)
  case Nil
  then show ?case by simp
next
  case (Cons p ps)
  show ?case
  proof (cases "p = (k, v)")
    case True
    with Cons.prems have "k \<notin> fst ` set ps" by auto
    then have "fold (\<lambda>(i, index) m. m(i \<mapsto> index)) ps (m(k \<mapsto> v)) k = (m(k \<mapsto> v)) k"
      by (rule fold_upd_other)
    moreover have "fold (\<lambda>(i, index) m. m(i \<mapsto> index)) (p # ps) m
        = fold (\<lambda>(i, index) m. m(i \<mapsto> index)) ps (m(k \<mapsto> v))"
      unfolding True by (simp only: fold_simps comp_apply split_conv)
    ultimately show ?thesis by (simp only: fun_upd_same)
  next
    case False
    with Cons show ?thesis by (cases p) auto
  qed
qed

lemma newOrderMap_nth:
  assumes "distinct ids" and "k < length ids"
  shows "newOrderMap ids (ids ! k) = Some k"
proof -
  from assms(2) have "(ids ! k, k) \<in> set (zip ids [0..<length ids])"
    by (auto simp: in_set_zip intro!: exI[of _ k])
  moreover from assms(1) have "distinct (map fst (zip ids [0..<length ids]))" by simp
  ultimately show ?thesis unfolding newOrderMap_def by (rule fold_upd_distinct[rotated])
qed

lemma mset_new_orders:
  assumes "permutesIds ids xs"
  shows "mset (map order (map (setNewOrder (newOrderMap ids)) xs)) = mset [0..<length xs]"
proof -
  let ?m = "newOrderMap ids"
  from assms have d: "distinct ids" and ms: "mset ids = mset (map id' xs)"
    by (simp_all add: permutesIds_def)
  from ms have len: "length ids = length xs" by (metis length_map size_mset)
  from ms have sets: "set ids = id' ` set xs" by (metis mset_eq_setD set_map)
  have key: "\<And>i. i \<in> set ids \<Longrightarrow> \<exists>k. ?m i = Some k"
    using d newOrderMap_nth by (metis in_set_conv_nth)
  have "map order (map (setNewOrder ?m) xs) = map (the \<circ> ?m) (map id' xs)"
  proof (simp, intro ballI)
    fix x assume "x \<in> set xs"
    with sets have "id' x \<in> set ids" by auto
    with key obtain k where "?m (id' x) = Some k" by blast
    then show "order (setNewOrder ?m x) = the (?m (id' x))"
      by (simp add: setNewOrder_def)
  qed
  then have "mset (map order (map (setNewOrder ?m) xs)) = image_mset (the \<circ> ?m) (mset (map id' xs))"
    by (simp only: mset_map)
  also have "\<dots> = image_mset (the \<circ> ?m) (mset ids)" by (simp only: ms)
  also have "\<dots> = mset (map (the \<circ> ?m) ids)" by (simp only: mset_map)
  also have "map (the \<circ> ?m) ids = [0..<length ids]"
    by (rule nth_equalityI) (simp_all add: newOrderMap_nth d)
  finally show ?thesis by (simp add: len)
qed

lemma dense_reorderChildren:
  "permutesIds ids xs \<Longrightarrow> dense (map order (reorderChildren ids xs))"
proof -
  assume p: "permutesIds ids xs"
  have "mset (map order (reorderChildren ids xs))
      = mset (map order (map (setNewOrder (newOrderMap ids)) xs))"
    unfolding reorderChildren_def by (simp only: mset_map mset_sort)
  with mset_new_orders[OF p] show ?thesis
    by (simp add: dense_mset reorderChildren_def)
qed

lemma list_all_reorderChildren:
  assumes "list_all P xs" and "\<And>x k. P x \<Longrightarrow> P (x\<lparr>order := k\<rparr>)"
  shows "list_all P (reorderChildren ids xs)"
  using assms
  by (auto simp: reorderChildren_def list_all_iff setNewOrder_def split: option.splits)


lemma denseTask_fields [simp]:
  "denseTask (t\<lparr>order := k\<rparr>) = denseTask t"
  "denseTask (t\<lparr>lastEditedDate := d\<rparr>) = denseTask t"
  by (simp_all add: denseTask_def)

lemma denseSubtask_fields [simp]:
  "denseSubtask (st\<lparr>order := k\<rparr>) = denseSubtask st"
  "denseSubtask (st\<lparr>lastEditedDate := d\<rparr>) = denseSubtask st"
  by (simp_all add: denseSubtask_def)

lemma list_all_update:
  assumes "list_all P xs" and "i < length xs \<Longrightarrow> P y"
  shows "list_all P (xs[i := y])"
proof (cases "i < length xs")
  case True
  with assms show ?thesis by (auto simp: list_all_length nth_list_update)
next
  case False
  with assms(1) show ?thesis by (simp add: list_update_beyond)
qed

lemma denseList_update_task:
  assumes "denseList l"
    and "ti < length (tasks l) \<Longrightarrow> order t' = order (tasks l ! ti) \<and> denseTask t'"
  shows "denseList (l\<lparr>tasks := (tasks l)[ti := t']\<rparr>)"
proof (cases "ti < length (tasks l)")
  case True
  with assms(2) have "map order ((tasks l)[ti := t']) = map order (tasks l)"
    by (simp add: map_update_same)
  with assms True show ?thesis by (simp add: denseList_def list_all_update)
next
  case False
  with assms(1) show ?thesis by (simp add: list_update_beyond)
qed

lemma denseTask_update_subtask:
  assumes "denseTask t"
    and "si < length (subtasks t) \<Longrightarrow> order st' = order (subtasks t ! si) \<and> denseSubtask st'"
  shows "denseTask (t\<lparr>subtasks := (subtasks t)[si := st']\<rparr>)"
proof (cases "si < length (subtasks t)")
  case True
  with assms(2) have "map order ((subtasks t)[si := st']) = map order (subtasks t)"
    by (simp add: map_update_same)
  with assms True show ?thesis by (simp add: denseTask_def list_all_update)
next
  case False
  with assms(1) show ?thesis by (simp add: list_update_beyond)
qed

lemma denseSubtask_update_activity:
  assumes "denseSubtask st"
    and "ai < length (activities st) \<Longrightarrow> order a' = order (activities st ! ai)"
  shows "denseSubtask (st\<lparr>activities := (activities st)[ai := a']\<rparr>)"
proof (cases "ai < length (activities st)")
  case True
  with assms(2) have "map order ((activities st)[ai := a']) = map order (activities st)"
    by (simp add: map_update_same)
  with assms True show ?thesis by (simp add: denseSubtask_def)
next
  case False
  with assms(1) show ?thesis by (simp add: list_update_beyond)
qed

lemma denseStore_modifyList:
  assumes "denseStore s"
    and "li < length (taskLists s) \<Longrightarrow> denseList (f (listAt s li))"
  shows "denseStore (modifyList li f s)"
  using assms by (simp add: denseStore_def modifyList_def listAt_def list_all_update)

lemma denseStore_listAt:
  "denseStore s \<Longrightarrow> li < length (taskLists s) \<Longrightarrow> denseList (listAt s li)"
  by (simp add: denseStore_def listAt_def list_all_length)

lemma denseStore_taskAt:
  "denseStore s \<Longrightarrow> validPos s (FoundTask li ti) \<Longrightarrow> denseTask (taskAt s li ti)"
  using denseStore_listAt[of s li] by (simp add: denseList_def taskAt_def list_all_length)

lemma denseStore_subtaskAt:
  "denseStore s \<Longrightarrow> validPos s (FoundSubtask li ti si) \<Longrightarrow> denseSubtask (subtaskAt s li ti si)"
  using denseStore_taskAt[of s li ti] by (simp add: denseTask_def subtaskAt_def list_all_length)

lemma denseStore_modifyTask:
  assumes "denseStore s"
    and "validPos s (FoundTask li ti) \<Longrightarrow> denseTask (taskAt s li ti) \<Longrightarrow>
           order (f (taskAt s li ti)) = order (taskAt s li ti) \<and> denseTask (f (taskAt s li ti))"
  shows "denseStore (modifyTask li ti f s)"
  unfolding modifyTask_def
proof (rule denseStore_modifyList[OF assms(1)])
  assume li: "li < length (taskLists s)"
  with assms(1) have dl: "denseList (listAt s li)" by (rule denseStore_listAt)
  show "denseList (listAt s li\<lparr>tasks := (tasks (listAt s li))[ti := f (tasks (listAt s li) ! ti)]\<rparr>)"
  proof (rule denseList_update_task[OF dl])
    assume ti: "ti < length (tasks (listAt s li))"
    with li have v: "validPos s (FoundTask li ti)" by simp
    with assms(1) have "denseTask (taskAt s li ti)" by (simp add: denseStore_taskAt)
    with assms(2) v show "order (f (tasks (listAt s li) ! ti)) = order (tasks (listAt s li) ! ti) \<and>
        denseTask (f (tasks (listAt s li) ! ti))"
      by (simp add: taskAt_def)
  qed
qed

lemma denseStore_modifySubtask:
  assumes "denseStore s"
    and "validPos s (FoundSubtask li ti si) \<Longrightarrow> denseSubtask (subtaskAt s li ti si) \<Longrightarrow>
           order (f (subtaskAt s li ti si)) = order (subtaskAt s li ti si) \<and>
           denseSubtask (f (subtaskAt s li ti si))"
  shows "denseStore (modifySubtask li ti si f s)"
  unfolding modifySubtask_def
proof (rule denseStore_modifyTask[OF assms(1)])
  assume v: "validPos s (FoundTask li ti)" and dt: "denseTask (taskAt s li ti)"
  have "denseTask (taskAt s li ti\<lparr>subtasks := (subtasks (taskAt s li ti))[si := f (subtasks (taskAt s li ti) ! si)]\<rparr>)"
  proof (rule denseTask_update_subtask[OF dt])
    assume si: "si < length (subtasks (taskAt s li ti))"
    with v have v': "validPos s (FoundSubtask li ti si)" by simp
    with assms(1) have "denseSubtask (subtaskAt s li ti si)" by (simp add: denseStore_subtaskAt)
    with assms(2) v' show "order (f (subtasks (taskAt s li ti) ! si)) = order (subtasks (taskAt s li ti) ! si) \<and>
        denseSubtask (f (subtasks (taskAt s li ti) ! si))"
      by (simp add: subtaskAt_def)
  qed
  then show "order (taskAt s li ti\<lparr>subtasks := (subtasks (taskAt s li ti))[si := f (subtasks (taskAt s li ti) ! si)]\<rparr>)
        = order (taskAt s li ti) \<and>
      denseTask (taskAt s li ti\<lparr>subtasks := (subtasks (taskAt s li ti))[si := f (subtasks (taskAt s li ti) ! si)]\<rparr>)"
    by simp
qed

lemma denseStore_modifyActivity:
  assumes "denseStore s"
    and "order (f (activityAt s li ti si ai)) = order (activityAt s li ti si ai)"
  shows "denseStore (modifyActivity li ti si ai f s)"
  unfolding modifyActivity_def
proof (rule denseStore_modifySubtask[OF assms(1)])
  assume "denseSubtask (subtaskAt s li ti si)"
  then have "denseSubtask (subtaskAt s li ti si\<lparr>activities := (activities (subtaskAt s li ti si))[ai := f (activities (subtaskAt s li ti si) ! ai)]\<rparr>)"
    using assms(2) by (intro denseSubtask_update_activity) (simp_all add: activityAt_def)
  then show "order (subtaskAt s li ti si\<lparr>activities := (activities (subtaskAt s li ti si))[ai := f (activities (subtaskAt s li ti si) ! ai)]\<rparr>)
        = order (subtaskAt s li ti si) \<and>
      denseSubtask (subtaskAt s li ti si\<lparr>activities := (activities (subtaskAt s li ti si))[ai := f (activities (subtaskAt s li ti si) ! ai)]\<rparr>)"
    by simp
qed

lemma denseStore_touch: "denseStore s \<Longrightarrow> denseStore (touch now p s)"
  by (cases p)
     (simp_all add: denseStore_modifyTask denseStore_modifySubtask denseStore_modifyActivity)


lemma findIndexById_Some:
  "findIndexById i xs = Some n \<Longrightarrow> n < length xs \<and> id' (xs ! n) = i"
  by (induction xs arbitrary: n) (auto split: if_splits)

lemma filter_same_length:
  "\<not> length (filter P xs) < length xs \<Longrightarrow> filter P xs = xs"
  by (metis filter_id_conv length_filter_less)

lemma list_all_filter: "list_all P xs \<Longrightarrow> list_all P (filter Q xs)"
  by (simp add: list_all_iff)

lemma denseStore_addTask:
  assumes "denseStore s"
  shows "denseStore (fst (addTask s now newId l n p c e))"
proof (cases "findIndexById l (taskLists s)")
  case None
  with assms show ?thesis by (simp add: addTask_def Let_def)
next
  case (Some li)
  let ?new = "the (snd (addTask s now newId l n p c e))"
  from Some have new: "subtasks ?new = []" "order ?new = length (tasks (listAt s li))"
    by (simp_all add: addTask_def Let_def)
  from Some have li: "li < length (taskLists s)" using findIndexById_Some by blast
  with assms have "denseList (listAt s li)" by (rule denseStore_listAt)
  with new have "denseList (listAt s li\<lparr>tasks := tasks (listAt s li) @ [?new]\<rparr>)"
    using dense_snoc[of "map order (tasks (listAt s li))"]
    by (simp add: denseList_def denseTask_def)
  with assms have "denseStore (modifyList li (\<lambda>la. la\<lparr>tasks := tasks la @ [?new]\<rparr>) s)"
    by (intro denseStore_modifyList)
  moreover from Some
  have "fst (addTask s now newId l n p c e) = modifyList li (\<lambda>la. la\<lparr>tasks := tasks la @ [?new]\<rparr>) s"
    by (simp add: addTask_def Let_def)
  ultimately show ?thesis by simp
qed

lemma denseList_deleteTaskLoop:
  "list_all denseList ls \<Longrightarrow> list_all denseList (deleteTaskLoop i ls)"
proof (induction ls)
  case Nil
  then show ?case by simp
next
  case (Cons l ls)
  let ?ts = "filter (\<lambda>t. id' t \<noteq> i) (tasks l)"
  from Cons.prems have dl: "denseList l" and rest: "list_all denseList ls" by simp_all
  show ?case
  proof (cases "length ?ts < length (tasks l)")
    case True
    from dl have "list_all denseTask (renumber ?ts)"
      by (intro list_all_renumber list_all_filter) (simp_all add: denseList_def)
    then have "denseList (l\<lparr>tasks := renumber ?ts\<rparr>)" by (simp add: denseList_def)
    with True rest show ?thesis by (simp add: Let_def)
  next
    case False
    then have "?ts = tasks l" by (rule filter_same_length)
    with False dl Cons.IH[OF rest] show ?thesis by (simp add: Let_def)
  qed
qed

lemma denseStore_deleteTask: "denseStore s \<Longrightarrow> denseStore (deleteTask s i)"
  by (simp add: denseStore_def deleteTask_def denseList_deleteTaskLoop)

lemma denseStore_reorderTasks:
  assumes "denseStore s"
    and "\<forall>li. findIndexById i (taskLists s) = Some li \<longrightarrow> permutesIds ids (tasks (listAt s li))"
  shows "denseStore (reorderTasks s i ids)"
proof (cases "findIndexById i (taskLists s)")
  case None
  with assms show ?thesis by (simp add: reorderTasks_def)
next
  case (Some li)
  then have li: "li < length (taskLists s)" using findIndexById_Some by blast
  with assms(1) have dl: "denseList (listAt s li)" by (rule denseStore_listAt)
  from Some assms(2) have p: "permutesIds ids (tasks (listAt s li))" by blast
  from dl have "list_all denseTask (reorderChildren ids (tasks (listAt s li)))"
    by (intro list_all_reorderChildren) (simp_all add: denseList_def)
  with dense_reorderChildren[OF p]
  have "denseList (listAt s li\<lparr>tasks := reorderChildren ids (tasks (listAt s li))\<rparr>)"
    by (simp add: denseList_def)
  with Some assms(1) show ?thesis
    by (simp add: reorderTasks_def denseStore_modifyList)
qed

lemma denseStore_addSubtask:
  assumes "denseStore s"
  shows "denseStore (fst (addSubtask s now newId i n p))"
proof (cases "\<exists>li ti. findItemInDraft s i = Some (FoundTask li ti)")
  case False
  with assms show ?thesis
    by (auto simp: addSubtask_def split: option.splits Found.splits)
next
  case True
  then obtain li ti where f: "findItemInDraft s i = Some (FoundTask li ti)" by blast
  have "\<And>st. activities st = [] \<Longrightarrow> order st = length (subtasks (taskAt s li ti)) \<Longrightarrow>
      denseStore (modifyTask li ti (\<lambda>t. t\<lparr>subtasks := subtasks t @ [st], lastEditedDate := now\<rparr>) s)"
  proof (rule denseStore_modifyTask[OF assms])
    fix st :: Subtask
    assume st: "activities st = []" "order st = length (subtasks (taskAt s li ti))"
    assume "denseTask (taskAt s li ti)"
    with st dense_snoc[of "map order (subtasks (taskAt s li ti))"]
    show "order (taskAt s li ti\<lparr>subtasks := subtasks (taskAt s li ti) @ [st], lastEditedDate := now\<rparr>)
          = order (taskAt s li ti) \<and>
        denseTask (taskAt s li ti\<lparr>subtasks := subtasks (taskAt s li ti) @ [st], lastEditedDate := now\<rparr>)"
      by (simp add: denseTask_def denseSubtask_def)
  qed
  with f show ?thesis by (simp add: addSubtask_def Let_def)
qed

lemma denseStore_deleteSubtask:
  assumes "denseStore s"
  shows "denseStore (deleteSubtask s now i)"
proof (cases "\<exists>li ti si. findItemInDraft s i = Some (FoundSubtask li ti si)")
  case False
  with assms show ?thesis
    by (auto simp: deleteSubtask_def split: option.splits Found.splits)
next
  case True
  then obtain li ti si where f: "findItemInDraft s i = Some (FoundSubtask li ti si)" by blast
  let ?f = "\<lambda>parentTask.
               let initialLength = length (subtasks parentTask);
                   t1 = parentTask\<lparr>subtasks := filter (\<lambda>st. id' st \<noteq> i) (subtasks parentTask)\<rparr>
               in if length (subtasks t1) < initialLength
                  then t1\<lparr>subtasks := renumber (subtasks t1), lastEditedDate := now\<rparr>
                  else t1"
  have "denseStore (modifyTask li ti ?f s)"
  proof (rule denseStore_modifyTask[OF assms])
    let ?t = "taskAt s li ti"
    let ?sts = "filter (\<lambda>st. id' st \<noteq> i) (subtasks ?t)"
    assume dt: "denseTask ?t"
    show "order (?f ?t) = order ?t \<and> denseTask (?f ?t)"
    proof (cases "length ?sts < length (subtasks ?t)")
      case True
      from dt have "list_all denseSubtask (renumber ?sts)"
        by (intro list_all_renumber list_all_filter) (simp_all add: denseTask_def)
      with True show ?thesis by (simp add: Let_def denseTask_def)
    next
      case False
      then have "?sts = subtasks ?t" by (rule filter_same_length)
      with False dt show ?thesis by (simp add: Let_def)
    qed
  qed
  with f show ?thesis by (simp add: deleteSubtask_def)
qed

lemma denseStore_reorderSubtasks:
  assumes "denseStore s"
    and "\<forall>li ti. findItemInDraft s i = Some (FoundTask li ti) \<longrightarrow>
           permutesIds ids (subtasks (taskAt s li ti))"
  shows "denseStore (reorderSubtasks s now i ids)"
proof (cases "\<exists>li ti. findItemInDraft s i = Some (FoundTask li ti)")
  case False
  with assms show ?thesis
    by (auto simp: reorderSubtasks_def split: option.splits Found.splits)
next
  case True
  then obtain li ti where f: "findItemInDraft s i = Some (FoundTask li ti)" by blast
  with assms(2) have p: "permutesIds ids (subtasks (taskAt s li ti))" by blast
  let ?f = "\<lambda>parentTask.
               if \<not> sequenceMandatory parentTask
               then parentTask\<lparr>subtasks := reorderChildren ids (subtasks parentTask),
                               lastEditedDate := now\<rparr>
               else parentTask"
  have "denseStore (modifyTask li ti ?f s)"
  proof (rule denseStore_modifyTask[OF assms(1)])
    let ?t = "taskAt s li ti"
    assume dt: "denseTask ?t"
    then have "list_all denseSubtask (reorderChildren ids (subtasks ?t))"
      by (intro list_all_reorderChildren) (simp_all add: denseTask_def)
    with dense_reorderChildren[OF p] dt
    show "order (?f ?t) = order ?t \<and> denseTask (?f ?t)"
      by (simp add: denseTask_def)
  qed
  with f show ?thesis by (simp add: reorderSubtasks_def)
qed

lemma denseStore_addActivity:
  assumes "denseStore s"
  shows "denseStore (fst (addActivity s now newId i n p))"
proof (cases "\<exists>li ti si. findItemInDraft s i = Some (FoundSubtask li ti si)")
  case False
  with assms show ?thesis
    by (auto simp: addActivity_def split: option.splits Found.splits)
next
  case True
  then obtain li ti si where f: "findItemInDraft s i = Some (FoundSubtask li ti si)" by blast
  have "\<And>a. order a = length (activities (subtaskAt s li ti si)) \<Longrightarrow>
      denseStore (modifySubtask li ti si (\<lambda>st. st\<lparr>activities := activities st @ [a], lastEditedDate := now\<rparr>) s)"
  proof (rule denseStore_modifySubtask[OF assms])
    fix a :: Activity
    assume a: "order a = length (activities (subtaskAt s li ti si))"
    assume "denseSubtask (subtaskAt s li ti si)"
    with a dense_snoc[of "map order (activities (subtaskAt s li ti si))"]
    show "order (subtaskAt s li ti si\<lparr>activities := activities (subtaskAt s li ti si) @ [a], lastEditedDate := now\<rparr>)
          = order (subtaskAt s li ti si) \<and>
        denseSubtask (subtaskAt s li ti si\<lparr>activities := activities (subtaskAt s li ti si) @ [a], lastEditedDate := now\<rparr>)"
      by (simp add: denseSubtask_def)
  qed
  then have "\<And>a. order a = length (activities (subtaskAt s li ti si)) \<Longrightarrow>
      denseStore (modifyTask li ti (\<lambda>t. t\<lparr>lastEditedDate := now\<rparr>)
        (modifySubtask li ti si (\<lambda>st. st\<lparr>activities := activities st @ [a], lastEditedDate := now\<rparr>) s))"
    by (intro denseStore_modifyTask) simp_all
  with f show ?thesis by (simp add: addActivity_def Let_def)
qed

lemma denseStore_deleteActivity:
  assumes "denseStore s"
  shows "denseStore (deleteActivity s now i)"
proof (cases "\<exists>li ti si ai. findItemInDraft s i = Some (FoundActivity li ti si ai)")
  case False
  with assms show ?thesis
    by (auto simp: deleteActivity_def split: option.splits Found.splits)
next
  case True
  then obtain li ti si ai where f: "findItemInDraft s i = Some (FoundActivity li ti si ai)" by blast
  let ?st = "subtaskAt s li ti si"
  let ?remaining = "filter (\<lambda>a. id' a \<noteq> i) (activities ?st)"
  show ?thesis
  proof (cases "findItemInDraft s (Subtask.parentId ?st)")
    case None
    with f assms show ?thesis by (simp add: deleteActivity_def)
  next
    case (Some p)
    show ?thesis
    proof (cases "length ?remaining < length (activities ?st)")
      case True
      have "denseStore (modifySubtask li ti si
              (\<lambda>st. st\<lparr>activities := renumber (filter (\<lambda>a. id' a \<noteq> i) (activities st)),
                       lastEditedDate := now\<rparr>) (touch now p s))"
        by (rule denseStore_modifySubtask[OF denseStore_touch[OF assms]])
           (simp add: denseSubtask_def)
      with f Some True show ?thesis by (simp add: deleteActivity_def Let_def)
    next
      case False
      then have same: "?remaining = activities ?st" by (rule filter_same_length)
      have "denseStore (modifySubtask li ti si
              (\<lambda>st. st\<lparr>activities := filter (\<lambda>a. id' a \<noteq> i) (activities st)\<rparr>) s)"
        by (rule denseStore_modifySubtask[OF assms]) (simp add: same)
      with f Some False show ?thesis by (simp add: deleteActivity_def Let_def)
    qed
  qed
qed

lemma denseStore_reorderActivities:
  assumes "denseStore s"
    and "\<forall>li ti si. findItemInDraft s i = Some (FoundSubtask li ti si) \<longrightarrow>
           permutesIds ids (activities (subtaskAt s li ti si))"
  shows "denseStore (reorderActivities s now i ids)"
proof (cases "\<exists>li ti si. findItemInDraft s i = Some (FoundSubtask li ti si)")
  case False
  with assms show ?thesis
    by (auto simp: reorderActivities_def split: option.splits Found.splits)
next
  case True
  then obtain li ti si where f: "findItemInDraft s i = Some (FoundSubtask li ti si)" by blast
  with assms(2) have p: "permutesIds ids (activities (subtaskAt s li ti si))" by blast
  have "denseStore (modifySubtask li ti si
          (\<lambda>st. st\<lparr>activities := reorderChildren ids (activities st), lastEditedDate := now\<rparr>) s)"
    using dense_reorderChildren[OF p]
    by (intro denseStore_modifySubtask[OF assms(1)]) (simp add: denseSubtask_def)
  then have "denseStore (modifyTask li ti (\<lambda>t. t\<lparr>lastEditedDate := now\<rparr>)
      (modifySubtask li ti si
          (\<lambda>st. st\<lparr>activities := reorderChildren ids (activities st), lastEditedDate := now\<rparr>) s))"
    by (intro denseStore_modifyTask) simp_all
  with f assms(1) show ?thesis by (simp add: reorderActivities_def)
qed

text \<open>
  C5 as the specification states it: after any add, delete or reorder
  operation the order values of every sibling set form a dense permutation
  \<open>0..n-1\<close>. \<^verbatim>\<open>reorderTasks\<close> with an id list that omits a task leaves
  that task's order as it was: on the list with the tasks \<open>a\<close> (order 0) and
  \<open>b\<close> (order 1), \<^verbatim>\<open>reorderTasks('default-list', ['b'])\<close> gives both tasks the
  order 0.
\<close>

theorem reorder_with_partial_ids_duplicates_order:
  "denseStore twoTaskStore \<and>
   map id' (tasks (listAt twoTaskStore 0)) = [''a'', ''b''] \<and>
   map order (tasks (listAt twoTaskStore 0)) = [0, 1] \<and>
   map order (tasks (listAt (reorderTasks twoTaskStore ''default-list'' [''b'']) 0)) = [0, 0] \<and>
   \<not> denseStore (reorderTasks twoTaskStore ''default-list'' [''b''])"
  by code_simp

text \<open>
  C5, amended. In a store whose sibling sets all have dense order values,
  every sibling set has dense order values \<open>0..n-1\<close> again after any add
  operation (\<^verbatim>\<open>addTask\<close>, \<^verbatim>\<open>addSubtask\<close>, \<^verbatim>\<open>addActivity\<close>), after any
  delete operation (\<^verbatim>\<open>deleteTask\<close>, \<^verbatim>\<open>deleteSubtask\<close>, \<^verbatim>\<open>deleteActivity\<close>),
  and after any reorder operation (\<^verbatim>\<open>reorderTasks\<close>, \<^verbatim>\<open>reorderSubtasks\<close>,
  \<^verbatim>\<open>reorderActivities\<close>) whose id list is a permutation of the ids of the
  container's children.
\<close>

theorem add_delete_reorder_keep_orders_dense:
  assumes "denseStore s"
  shows "denseStore (fst (addTask s now newId i newName p c e)) \<and>
         denseStore (fst (addSubtask s now newId i newName p)) \<and>
         denseStore (fst (addActivity s now newId i newName p)) \<and>
         denseStore (deleteTask s i) \<and>
         denseStore (deleteSubtask s now i) \<and>
         denseStore (deleteActivity s now i) \<and>
         (completeTaskOrder s i ids \<longrightarrow> denseStore (reorderTasks s i ids)) \<and>
         (completeSubtaskOrder s i ids \<longrightarrow> denseStore (reorderSubtasks s now i ids)) \<and>
         (completeActivityOrder s i ids \<longrightarrow> denseStore (reorderActivities s now i ids))"
proof -
  have t: "completeTaskOrder s i ids \<longrightarrow> denseStore (reorderTasks s i ids)"
    using assms by (auto simp: completeTaskOrder_def intro!: denseStore_reorderTasks)
  have st: "completeSubtaskOrder s i ids \<longrightarrow> denseStore (reorderSubtasks s now i ids)"
    using assms by (auto simp: completeSubtaskOrder_def intro!: denseStore_reorderSubtasks)
  have a: "completeActivityOrder s i ids \<longrightarrow> denseStore (reorderActivities s now i ids)"
    using assms by (auto simp: completeActivityOrder_def intro!: denseStore_reorderActivities)
  from assms t st a show ?thesis
    by (simp add: denseStore_addTask denseStore_addSubtask denseStore_addActivity
          denseStore_deleteTask denseStore_deleteSubtask denseStore_deleteActivity)
qed

theorem add_delete_reorder_keep_orders_dense_witness:
  "denseStore demoStore \<and>
   completeTaskOrder twoTaskStore ''default-list'' [''b'', ''a''] \<and>
   completeSubtaskOrder demoStore ''T'' [''S2'', ''S1''] \<and>
   completeActivityOrder demoStore ''S1'' [''A2'', ''A1''] \<and>
   denseStore twoTaskStore \<and>
   denseStore (reorderTasks twoTaskStore ''default-list'' [''b'', ''a'']) \<and>
   denseStore (reorderSubtasks demoStore 7 ''T'' [''S2'', ''S1'']) \<and>
   denseStore (reorderActivities demoStore 7 ''S1'' [''A2'', ''A1'']) \<and>
   denseStore (deleteSubtask demoStore 7 ''S1'') \<and>
   denseStore (fst (addSubtask demoStore 7 ''S3'' ''T'' ''third'' None)) \<and>
   map id' (tasks (listAt (reorderTasks twoTaskStore ''default-list'' [''b'', ''a'']) 0)) = [''b'', ''a''] \<and>
   map order (tasks (listAt (reorderTasks twoTaskStore ''default-list'' [''b'', ''a'']) 0)) = [0, 1] \<and>
   map id' (subtasks (taskAt (deleteSubtask demoStore 7 ''S1'') 0 0)) = [''S2''] \<and>
   map order (subtasks (taskAt (deleteSubtask demoStore 7 ''S1'') 0 0)) = [0]"
proof -
  have h1: "denseStore demoStore" by code_simp
  have h2: "denseStore twoTaskStore" by code_simp
  have h3: "completeTaskOrder twoTaskStore ''default-list'' [''b'', ''a'']" by code_simp
  have h4: "completeSubtaskOrder demoStore ''T'' [''S2'', ''S1'']" by code_simp
  have h5: "completeActivityOrder demoStore ''S1'' [''A2'', ''A1'']" by code_simp
  have e1: "map id' (tasks (listAt (reorderTasks twoTaskStore ''default-list'' [''b'', ''a'']) 0)) = [''b'', ''a'']"
    by code_simp
  have e2: "map order (tasks (listAt (reorderTasks twoTaskStore ''default-list'' [''b'', ''a'']) 0)) = [0, 1]"
    by code_simp
  have e3: "map id' (subtasks (taskAt (deleteSubtask demoStore 7 ''S1'') 0 0)) = [''S2'']"
    by code_simp
  have e4: "map order (subtasks (taskAt (deleteSubtask demoStore 7 ''S1'') 0 0)) = [0]"
    by code_simp
  from add_delete_reorder_keep_orders_dense [OF h2, of 7 "''x''" "''default-list''" "''x''" None None None "[''b'', ''a'']"] h3
  have a: "denseStore (reorderTasks twoTaskStore ''default-list'' [''b'', ''a''])" by blast
  from add_delete_reorder_keep_orders_dense [OF h1, of 7 "''S3''" "''T''" "''third''" None None None "[''S2'', ''S1'']"] h4
  have b: "denseStore (reorderSubtasks demoStore 7 ''T'' [''S2'', ''S1''])"
    "denseStore (fst (addSubtask demoStore 7 ''S3'' ''T'' ''third'' None))" by blast+
  from add_delete_reorder_keep_orders_dense [OF h1, of 7 "''x''" "''S1''" "''x''" None None None "[''A2'', ''A1'']"] h5
  have c: "denseStore (reorderActivities demoStore 7 ''S1'' [''A2'', ''A1''])"
    "denseStore (deleteSubtask demoStore 7 ''S1'')" by blast+
  from a b c h1 h2 h3 h4 h5 e1 e2 e3 e4 show ?thesis by blast
qed

end
